theory Spec2Isabelle
  imports Complex_Main
begin

section \<open>The cube simulation of portfolioMilestone.js\<close>

text \<open>
  The simulation keeps its entities in five index-aligned arrays (\<open>positions\<close>,
  \<open>angles\<close>, \<open>speeds\<close>, \<open>colors\<close>, \<open>directions\<close>), a uniform grid
  (\<open>spatialGrid\<close>) and a few module-level constants. The embedding below follows the
  annotated second half of the file (the collision system with the spatial grid).

  JavaScript numbers are modelled as reals: rounding, overflow to \<open>Infinity\<close> and
  \<open>NaN\<close> are not represented. Where the source can produce \<open>Infinity\<close> or \<open>NaN\<close>
  by a division by zero (the grid constructor), the case is written out. In the cell
  coordinates of the grid, where a floor follows the arithmetic and a rounding can move
  an entity to another cell, the rounding of each result to a double is written out too:
  it is the function \<open>rounding\<close> of the world, about which nothing is assumed; exact
  arithmetic is the case where it is the identity.
  \<open>Math.random()\<close> is modelled by a sequence \<open>randoms\<close> of the values it will return,
  in call order, and a counter \<open>drawn\<close> of the values already consumed.
\<close>

subsection \<open>Data\<close>

datatype js_error = TypeError | RangeError

text \<open>An element of \<open>positions\<close>: \<open>{ x, y, z, hasSplit }\<close>.\<close>

record Position =
  x :: real
  y :: real
  z :: real
  hasSplit :: bool

text \<open>An element of \<open>directions\<close>: \<open>{ dx, dy, dz }\<close>.\<close>

record Direction =
  dx :: real
  dy :: real
  dz :: real

text \<open>An element of \<open>colors\<close>: \<open>{ current: [R,G,B,A], target: [R,G,B,A], step }\<close>.\<close>

record Color =
  current :: "real list"
  target :: "real list"
  step :: real

text \<open>The constant \<open>boundary = { x, y, z }\<close>; the fields are renamed, \<open>x\<close>, \<open>y\<close> and
  \<open>z\<close> being the fields of a position.\<close>

record Boundary =
  bound_x :: real
  bound_y :: real
  bound_z :: real

text \<open>An instance of \<open>class SpatialGrid\<close>. \<open>gridSize\<close> is the result of \<open>Math.ceil\<close>,
  an integer; a cell is the array of the entity indices pushed into it.\<close>

record SpatialGrid =
  cellSize :: real
  gridSize :: int
  grid :: "nat list list"

text \<open>The module-level variables the simulation reads and writes.\<close>

record world =
  positions :: "Position list"
  angles :: "real list"
  speeds :: "real list"
  colors :: "Color list"
  directions :: "Direction list"
  boundary :: Boundary
  spatialGrid :: SpatialGrid
  animationPaused :: bool
  randoms :: "nat \<Rightarrow> real"
  drawn :: nat
  rounding :: "real \<Rightarrow> real"

text \<open>The five arrays are index-aligned when they have one length.\<close>

definition aligned :: "world \<Rightarrow> bool" where
  "aligned s \<longleftrightarrow>
     length (angles s) = length (positions s) \<and>
     length (speeds s) = length (positions s) \<and>
     length (colors s) = length (positions s) \<and>
     length (directions s) = length (positions s)"

text \<open>
  An index is usable when it hits all five arrays. JavaScript throws a \<open>TypeError\<close> when a
  field is read from a missing element of \<open>positions\<close>, \<open>colors\<close> or \<open>directions\<close>; a miss
  in \<open>angles\<close> or \<open>speeds\<close> alone would yield \<open>undefined\<close> and then \<open>NaN\<close>, values the
  model does not have, and is reported as the same error. On an aligned store the five
  conditions are one.
\<close>

definition valid :: "world \<Rightarrow> nat \<Rightarrow> bool" where
  "valid s i \<longleftrightarrow>
     i < length (positions s) \<and> i < length (angles s) \<and> i < length (speeds s) \<and>
     i < length (colors s) \<and> i < length (directions s)"

subsection \<open>Random numbers and colours\<close>

definition Math_random :: "world \<Rightarrow> real \<times> world" where
  "Math_random s = (randoms s (drawn s), s\<lparr>drawn := Suc (drawn s)\<rparr>)"

definition getRandomColor :: "world \<Rightarrow> real list \<times> world" where
  "getRandomColor s =
     (let (r, s1) = Math_random s;
          (g, s2) = Math_random s1;
          (b, s3) = Math_random s2
      in ([r, g, b, 1.0], s3))"

subsection \<open>Subdivision\<close>

text \<open>One iteration of the loop of \<open>splitCube\<close>, for the loop variable \<open>i\<close>.\<close>

definition smallScale :: real where
  "smallScale = 0.1"

definition splitChild :: "nat \<Rightarrow> Position \<Rightarrow> world \<Rightarrow> nat \<Rightarrow> world" where
  "splitChild index originalPos s i =
     (let xOffset = (if and i 1 \<noteq> 0 then smallScale else - smallScale);
          yOffset = (if and i 2 \<noteq> 0 then smallScale else - smallScale);
          zOffset = (if and i 4 \<noteq> 0 then smallScale else - smallScale);
          s1 = s\<lparr>positions := positions s @
                  [\<lparr>x = x originalPos + xOffset, y = y originalPos + yOffset,
                    z = z originalPos + zOffset, hasSplit = True\<rparr>]\<rparr>;
          s2 = s1\<lparr>angles := angles s1 @ [angles s1 ! index]\<rparr>;
          s3 = s2\<lparr>speeds := speeds s2 @ [speeds s2 ! index * 1.2]\<rparr>;
          (tgt, s4) = getRandomColor s3;
          s5 = s4\<lparr>colors := colors s4 @
                  [\<lparr>current = current (colors s4 ! index), target = tgt, step = 0\<rparr>]\<rparr>;
          (rx, s6) = Math_random s5;
          (ry, s7) = Math_random s6;
          (rz, s8) = Math_random s7
      in s8\<lparr>directions := directions s8 @
              [\<lparr>dx = (rx - 0.5) * 0.01, dy = (ry - 0.5) * 0.01, dz = (rz - 0.5) * 0.01\<rparr>]\<rparr>)"

text \<open>\<open>splitCube(index)\<close>: the loop runs for \<open>i = 0, \<dots>, 7\<close>. A parent index that misses
  the arrays stops the call with a \<open>TypeError\<close> (\<open>originalPos.x\<close> of \<open>undefined\<close>).\<close>

definition splitCube :: "nat \<Rightarrow> world \<Rightarrow> js_error + world" where
  "splitCube index s =
     (if valid s index
      then Inr (foldl (splitChild index (positions s ! index)) s [0..<8])
      else Inl TypeError)"

subsection \<open>Colour transition\<close>

text \<open>One iteration of the channel loop of \<open>updateColorTransition\<close>. The colour arrays the
  program builds (\<open>getRandomColor\<close>, the initialiser, the copies) all have four entries;
  on a shorter array JavaScript would store \<open>NaN\<close>, where the model leaves the array as it
  is.\<close>

definition blendChannel :: "real list \<Rightarrow> real list \<Rightarrow> nat \<Rightarrow> real list" where
  "blendChannel tgt cur i = cur[i := cur ! i + (tgt ! i - cur ! i) * 0.02]"

text \<open>\<open>updateColorTransition(colorObj)\<close> changes the object it is given and, when it
  retargets, consumes random numbers: it returns the object and the world.\<close>

definition updateColorTransition :: "Color \<Rightarrow> world \<Rightarrow> Color \<times> world" where
  "updateColorTransition colorObj s =
     (let c1 = colorObj\<lparr>step := step colorObj + 0.005\<rparr>;
          c2 = c1\<lparr>current := foldl (blendChannel (target c1)) (current c1) [0..<3]\<rparr>
      in if step c2 \<ge> 1
         then (let (tgt, s1) = getRandomColor s in (c2\<lparr>target := tgt, step := 0\<rparr>, s1))
         else (c2, s))"

text \<open>\<open>n\<close> successive calls of \<open>updateColorTransition\<close> on one colour object.\<close>

fun advance :: "nat \<Rightarrow> Color \<Rightarrow> world \<Rightarrow> Color \<times> world" where
  "advance 0 c s = (c, s)"
| "advance (Suc n) c s = (let (c1, s1) = updateColorTransition c s in advance n c1 s1)"

subsection \<open>The spatial grid\<close>

text \<open>
  \<open>new SpatialGrid(worldSize, cellSize)\<close>. The constructor checks nothing. The only failure
  is that of \<open>new Array(n)\<close>, which throws a \<open>RangeError\<close> unless \<open>n\<close> is an integer with
  \<open>0 \<le> n < 2^32\<close>. With \<open>cellSize = 0\<close> the quotient \<open>worldSize * 2 / cellSize\<close> is
  \<open>Infinity\<close>, \<open>-Infinity\<close> or \<open>NaN\<close>, and so are \<open>gridSize\<close> and its cube. A quotient in
  \<open>(-1, 0]\<close> has the ceiling \<open>-0\<close>, an accepted length: the array is empty.
\<close>

definition SpatialGrid_new :: "real \<Rightarrow> real \<Rightarrow> js_error + SpatialGrid" where
  "SpatialGrid_new worldSize cs =
     (if cs = 0 then Inl RangeError
      else let gs = \<lceil>worldSize * 2 / cs\<rceil>; n = gs * gs * gs
           in if n < 0 \<or> 2 ^ 32 \<le> n then Inl RangeError
              else Inr \<lparr>cellSize = cs, gridSize = gs, grid = replicate (nat n) []\<rparr>)"

text \<open>The initialisation of \<open>spatialGrid\<close>:
  \<open>new SpatialGrid(Math.max(boundary.x, boundary.y, Math.abs(boundary.z)), 0.5)\<close>, with the
  boundary and the cell size as the configuration.\<close>

definition worldSizeOf :: "Boundary \<Rightarrow> real" where
  "worldSizeOf b = max (max (bound_x b) (bound_y b)) \<bar>bound_z b\<bar>"

definition spatialGrid_init :: "Boundary \<Rightarrow> real \<Rightarrow> js_error + SpatialGrid" where
  "spatialGrid_init b cs = SpatialGrid_new (worldSizeOf b) cs"

text \<open>One cell coordinate of \<open>getGridIndex\<close>: \<open>Math.floor((p + bound) / cellSize)\<close>. The sum
  and the quotient are doubles: \<open>fl\<close> takes the exact result of an operation to the double
  that is stored. The floor of a double is exact.\<close>

definition gridCoordinate :: "(real \<Rightarrow> real) \<Rightarrow> real \<Rightarrow> real \<Rightarrow> real \<Rightarrow> int" where
  "gridCoordinate fl cs p bound = \<lfloor>fl (fl (p + bound) / cs)\<rfloor>"

text \<open>\<open>getGridIndex(x, y, z)\<close>. The grids the constructor returns have a nonzero cell size.
  The flattened index is integer arithmetic, exact in doubles up to \<open>2^53\<close>.\<close>

definition getGridIndex ::
  "(real \<Rightarrow> real) \<Rightarrow> Boundary \<Rightarrow> SpatialGrid \<Rightarrow> real \<Rightarrow> real \<Rightarrow> real \<Rightarrow> int" where
  "getGridIndex fl b g px py pz =
     (let gridX = gridCoordinate fl (cellSize g) px (bound_x b);
          gridY = gridCoordinate fl (cellSize g) py (bound_y b);
          gridZ = gridCoordinate fl (cellSize g) pz \<bar>bound_z b\<bar>
      in gridX + gridY * gridSize g + gridZ * gridSize g * gridSize g)"

text \<open>The second loop of \<open>updateGrid\<close>: \<open>positions.forEach((pos, index) => \<dots>)\<close>, on the
  cells.\<close>

fun insertPositions ::
  "(real \<Rightarrow> real) \<Rightarrow> Boundary \<Rightarrow> SpatialGrid \<Rightarrow> Position list \<Rightarrow> nat \<Rightarrow> nat list list \<Rightarrow>
     nat list list" where
  "insertPositions fl b g [] index cells = cells"
| "insertPositions fl b g (pos # ps) index cells =
     (let gridIndex = getGridIndex fl b g (x pos) (y pos) (z pos)
      in insertPositions fl b g ps (Suc index)
           (if 0 \<le> gridIndex \<and> gridIndex < int (length cells)
            then cells[nat gridIndex := cells ! nat gridIndex @ [index]]
            else cells))"

definition updateGrid :: "world \<Rightarrow> world" where
  "updateGrid s =
     (let g = spatialGrid s;
          cleared = map (\<lambda>cell. []) (grid g)
      in s\<lparr>spatialGrid :=
             g\<lparr>grid := insertPositions (rounding s) (boundary s) g (positions s) 0 cleared\<rparr>\<rparr>)"

text \<open>\<open>candidates.add(idx)\<close> on a \<open>Set\<close>, which keeps insertion order and no duplicate.\<close>

definition Set_add :: "nat list \<Rightarrow> nat \<Rightarrow> nat list" where
  "Set_add candidates idx = (if idx \<in> set candidates then candidates else candidates @ [idx])"

text \<open>The offsets of the three nested loops of \<open>getPotentialCollisions\<close>, in loop order.\<close>

definition neighborOffsets :: "(int \<times> int \<times> int) list" where
  "neighborOffsets =
     concat (map (\<lambda>ox. concat (map (\<lambda>oy. map (\<lambda>oz. (ox, oy, oz)) [-1, 0, 1]) [-1, 0, 1]))
       [-1, 0, 1])"

text \<open>The body of the innermost loop, for one offset.\<close>

definition scanNeighbor ::
  "nat \<Rightarrow> SpatialGrid \<Rightarrow> int \<Rightarrow> nat list \<Rightarrow> int \<times> int \<times> int \<Rightarrow> nat list" where
  "scanNeighbor cubeIndex g gridIndex candidates off =
     (case off of (ox, oy, oz) \<Rightarrow>
        (let neighborIndex = gridIndex + ox + oy * gridSize g + oz * gridSize g * gridSize g
         in if 0 \<le> neighborIndex \<and> neighborIndex < int (length (grid g))
            then foldl (\<lambda>c idx. if idx \<noteq> cubeIndex then Set_add c idx else c) candidates
                   (grid g ! nat neighborIndex)
            else candidates))"

text \<open>\<open>getPotentialCollisions(cubeIndex)\<close>; \<open>pos.x\<close> of a missing position is a
  \<open>TypeError\<close>.\<close>

definition getPotentialCollisions :: "nat \<Rightarrow> world \<Rightarrow> js_error + nat list" where
  "getPotentialCollisions cubeIndex s =
     (if cubeIndex < length (positions s)
      then (let pos = positions s ! cubeIndex;
                g = spatialGrid s;
                gridIndex = getGridIndex (rounding s) (boundary s) g (x pos) (y pos) (z pos)
            in Inr (foldl (scanNeighbor cubeIndex g gridIndex) [] neighborOffsets))
      else Inl TypeError)"

subsection \<open>Collision response\<close>

definition cubeSize :: real where
  "cubeSize = 0.2"

text \<open>The constant \<open>collision\<close> of \<open>checkCollisions\<close>.\<close>

definition collision :: "Position \<Rightarrow> Position \<Rightarrow> bool" where
  "collision cube other \<longleftrightarrow>
     \<bar>x cube - x other\<bar> < cubeSize \<and> \<bar>y cube - y other\<bar> < cubeSize \<and>
     \<bar>z cube - z other\<bar> < cubeSize"

text \<open>The loop \<open>for (const i of candidates)\<close> of \<open>checkCollisions\<close>, with the value the
  function returns. A candidate that misses \<open>positions\<close> is a \<open>TypeError\<close> (\<open>other.x\<close>), and
  so is a bounce of an entity that has no direction.\<close>

fun checkCandidates :: "nat \<Rightarrow> nat list \<Rightarrow> world \<Rightarrow> js_error + bool \<times> world" where
  "checkCandidates cubeIndex [] s = Inr (False, s)"
| "checkCandidates cubeIndex (i # rest) s =
     (if \<not> i < length (positions s) then Inl TypeError
      else let cube = positions s ! cubeIndex; other = positions s ! i
           in if collision cube other
              then (if \<not> hasSplit cube
                    then (case splitCube cubeIndex s of
                            Inl e \<Rightarrow> Inl e
                          | Inr s1 \<Rightarrow>
                              Inr (True, s1\<lparr>positions := (positions s1)
                                     [cubeIndex := (positions s1 ! cubeIndex)\<lparr>hasSplit := True\<rparr>]\<rparr>))
                    else if \<not> cubeIndex < length (directions s) then Inl TypeError
                    else (let d = directions s ! cubeIndex
                          in checkCandidates cubeIndex rest
                               (s\<lparr>directions := (directions s)
                                    [cubeIndex := \<lparr>dx = dx d * (- 1), dy = dy d * (- 1),
                                                   dz = dz d * (- 1)\<rparr>]\<rparr>)))
              else checkCandidates cubeIndex rest s)"

definition checkCollisions :: "nat \<Rightarrow> world \<Rightarrow> js_error + bool \<times> world" where
  "checkCollisions cubeIndex s =
     (case getPotentialCollisions cubeIndex s of
        Inl e \<Rightarrow> Inl e
      | Inr candidates \<Rightarrow> checkCandidates cubeIndex candidates s)"

subsection \<open>The frame\<close>

text \<open>The update of the cube properties in \<open>render\<close>: rotation, then position.\<close>

definition integrate :: "nat \<Rightarrow> world \<Rightarrow> world" where
  "integrate i s =
     (let s1 = s\<lparr>angles := (angles s)[i := angles s ! i + speeds s ! i]\<rparr>;
          p = positions s1 ! i; d = directions s1 ! i
      in s1\<lparr>positions := (positions s1)
              [i := p\<lparr>x := x p + dx d, y := y p + dy d, z := z p + dz d\<rparr>]\<rparr>)"

text \<open>The three boundary checks of \<open>render\<close>, in order.\<close>

definition flipX :: "Direction \<Rightarrow> Direction" where
  "flipX d = d\<lparr>dx := dx d * (- 1)\<rparr>"

definition flipY :: "Direction \<Rightarrow> Direction" where
  "flipY d = d\<lparr>dy := dy d * (- 1)\<rparr>"

definition flipZ :: "Direction \<Rightarrow> Direction" where
  "flipZ d = d\<lparr>dz := dz d * (- 1)\<rparr>"

definition boundaryBounce :: "nat \<Rightarrow> world \<Rightarrow> world" where
  "boundaryBounce i s =
     (let b = boundary s; p = positions s ! i;
          s1 = (if x p > bound_x b \<or> x p < - bound_x b
                then s\<lparr>directions := (directions s)[i := flipX (directions s ! i)]\<rparr> else s);
          s2 = (if y p > bound_y b \<or> y p < - bound_y b
                then s1\<lparr>directions := (directions s1)[i := flipY (directions s1 ! i)]\<rparr> else s1)
      in if z p > - 0.5 \<or> z p < bound_z b
         then s2\<lparr>directions := (directions s2)[i := flipZ (directions s2 ! i)]\<rparr> else s2)"

text \<open>The body of the cube loop of \<open>render\<close> for the index \<open>i\<close>, without the drawing calls:
  colour, collisions, integration, boundary.\<close>

definition renderCube :: "nat \<Rightarrow> world \<Rightarrow> js_error + world" where
  "renderCube i s =
     (if \<not> valid s i then Inl TypeError
      else let (c, s1) = updateColorTransition (colors s ! i) s;
               s2 = s1\<lparr>colors := (colors s1)[i := c]\<rparr>
           in case checkCollisions i s2 of
                Inl e \<Rightarrow> Inl e
              | Inr (b, s3) \<Rightarrow> Inr (boundaryBounce i (integrate i s3)))"

text \<open>The loop \<open>for (let i = 0; i < positions.length; i++)\<close>: the bound is read from the
  current array at every test.\<close>

function renderLoop :: "nat \<Rightarrow> world \<Rightarrow> js_error + world" where
  "renderLoop i s =
     (if i < length (positions s)
      then (case renderCube i s of Inl e \<Rightarrow> Inl e | Inr s1 \<Rightarrow> renderLoop (Suc i) s1)
      else Inr s)"
  by pat_completeness auto

text \<open>The variant of the loop: the indices still to visit, and eight more for every unsplit
  entity among them, since a split appends eight entities.\<close>

definition renderVariant :: "nat \<Rightarrow> world \<Rightarrow> nat" where
  "renderVariant i s =
     (length (positions s) - i) +
     8 * length (filter Not (drop i (map hasSplit (positions s))))"

text \<open>\<open>render()\<close>, one frame. The request for the next frame is not part of the model.\<close>

definition render :: "world \<Rightarrow> js_error + world" where
  "render s = (if animationPaused s then Inr s else renderLoop 0 (updateGrid s))"

subsection \<open>Controls\<close>

text \<open>The loop \<open>colors.forEach(cubeColor => \<dots>)\<close> of the colour-sync handler.\<close>

fun syncColors :: "real list \<Rightarrow> Color list \<Rightarrow> world \<Rightarrow> Color list \<times> world" where
  "syncColors color [] s = ([], s)"
| "syncColors color (cubeColor # rest) s =
     (let (tgt, s1) = getRandomColor s;
          (rest1, s2) = syncColors color rest s1
      in (cubeColor\<lparr>current := color, target := tgt\<rparr> # rest1, s2))"

text \<open>\<open>colorSyncButton.onclick\<close>, the control the specification calls
  \<open>resetColorsToRandom\<close>.\<close>

definition colorSyncButton_onclick :: "world \<Rightarrow> world" where
  "colorSyncButton_onclick s =
     (let (color, s1) = getRandomColor s;
          (cs, s2) = syncColors color (colors s1) s1
      in s2\<lparr>colors := cs\<rparr>)"

text \<open>\<open>playPauseButton.onclick\<close>.\<close>

definition playPauseButton_onclick :: "world \<Rightarrow> js_error + world" where
  "playPauseButton_onclick s =
     (let s1 = s\<lparr>animationPaused := \<not> animationPaused s\<rparr>
      in if \<not> animationPaused s1 then render s1 else Inr s1)"

text \<open>The operations that change the world: a frame, the two controls, and a call of
  \<open>splitCube\<close>. A run performs a list of them; an exception ends the run.\<close>

datatype operation = Frame | ColorSync | PlayPause | Split nat

fun perform :: "operation \<Rightarrow> world \<Rightarrow> js_error + world" where
  "perform Frame s = render s"
| "perform ColorSync s = Inr (colorSyncButton_onclick s)"
| "perform PlayPause s = playPauseButton_onclick s"
| "perform (Split index) s = splitCube index s"

fun run :: "operation list \<Rightarrow> world \<Rightarrow> js_error + world" where
  "run [] s = Inr s"
| "run (op # ops) s = (case perform op s of Inl e \<Rightarrow> Inl e | Inr s1 \<Rightarrow> run ops s1)"

text \<open>The cube loop with a fixed list of indices to visit, for comparison with the loop of
  \<open>render\<close>, whose bound moves.\<close>

fun renderIndices :: "nat list \<Rightarrow> world \<Rightarrow> js_error + world" where
  "renderIndices [] s = Inr s"
| "renderIndices (i # rest) s =
     (case renderCube i s of Inl e \<Rightarrow> Inl e | Inr s1 \<Rightarrow> renderIndices rest s1)"

subsection \<open>Example worlds\<close>

text \<open>A small world for concrete runs: two unsplit cubes a tenth apart, in a grid of
  \<open>2 \<times> 2 \<times> 2\<close> cells of size 1 (the grid \<open>new SpatialGrid(1, 1)\<close> returns), and a random
  sequence with values in \<open>[0, 1)\<close>.\<close>

definition exampleWorld :: world where
  "exampleWorld =
     \<lparr>positions = [\<lparr>x = 0, y = 0, z = - 0.75, hasSplit = False\<rparr>,
                   \<lparr>x = 0.1, y = 0, z = - 0.75, hasSplit = False\<rparr>],
      angles = [0, 0],
      speeds = [0.01, 0.02],
      colors = [\<lparr>current = [0.5, 0.5, 0.5, 1], target = [1, 0, 0, 1], step = 0\<rparr>,
                \<lparr>current = [0, 1, 0, 1], target = [0, 0, 1, 1], step = 0\<rparr>],
      directions = [\<lparr>dx = 0.005, dy = 0.003, dz = 0.002\<rparr>,
                    \<lparr>dx = - 0.004, dy = 0.004, dz = 0.003\<rparr>],
      boundary = \<lparr>bound_x = 1, bound_y = 1, bound_z = - 1\<rparr>,
      spatialGrid = \<lparr>cellSize = 1, gridSize = 2, grid = [[], [], [], [], [], [], [], []]\<rparr>,
      animationPaused = False,
      randoms = (\<lambda>n. 1 / (real n + 2)),
      drawn = 0,
      rounding = (\<lambda>v. v)\<rparr>"

text \<open>The same two cubes with cube 0 flagged as split, and the grid as \<open>updateGrid\<close> fills
  it: both cubes are in cell 3.\<close>

definition bounceWorld :: world where
  "bounceWorld = exampleWorld
     \<lparr>positions := [\<lparr>x = 0, y = 0, z = - 0.75, hasSplit = True\<rparr>,
                    \<lparr>x = 0.1, y = 0, z = - 0.75, hasSplit = False\<rparr>],
      spatialGrid := \<lparr>cellSize = 1, gridSize = 2, grid = [[], [], [], [0, 1], [], [], [], []]\<rparr>\<rparr>"

text \<open>Cube 0 just beyond the bound on the x axis.\<close>

definition edgeWorld :: world where
  "edgeWorld = exampleWorld
     \<lparr>positions := [\<lparr>x = 1.002, y = 0, z = - 0.75, hasSplit = False\<rparr>,
                    \<lparr>x = 0.1, y = 0, z = - 0.75, hasSplit = False\<rparr>]\<rparr>"

text \<open>The two cubes after one colour step: the steps are no longer 0.\<close>

definition tickedWorld :: world where
  "tickedWorld = exampleWorld
     \<lparr>colors := [\<lparr>current = [0.51, 0.49, 0.49, 1], target = [1, 0, 0, 1], step = 0.005\<rparr>,
                 \<lparr>current = [0, 0.98, 0.02, 1], target = [0, 0, 1, 1], step = 0.005\<rparr>]\<rparr>"

text \<open>A colour object one call before its transition completes.\<close>

definition nearlyDone :: Color where
  "nearlyDone = \<lparr>current = [0.2, 0.4, 0.6, 1], target = [1, 0, 0.5, 1], step = 0.996\<rparr>"


text \<open>The boundary and the grid of the source again, with two cubes inside the box whose
  \<open>x\<close> coordinates are doubles. \<open>rounding\<close> is the identity except at the two sums
  \<open>x + boundary.x\<close> of these cubes, where it returns the nearest double: \<open>2 - 3 / 2 ^ 54\<close>
  lies between the neighbouring doubles \<open>2 - 1 / 2 ^ 52\<close> and \<open>2\<close>, nearer the first;
  \<open>5 / 2 - 1 / 2 ^ 52\<close> is half way between \<open>5 / 2 - 1 / 2 ^ 51\<close> and \<open>5 / 2\<close>, and the tie
  goes to the even significand, \<open>5 / 2\<close>. Every other value of the cell arithmetic of these
  cubes is a double already.\<close>

definition roundedWorld :: world where
  "roundedWorld = exampleWorld
     \<lparr>positions := [\<lparr>x = 1 / 2 - 3 / 2 ^ 54, y = 0, z = - 2, hasSplit = False\<rparr>,
                    \<lparr>x = 1 - 1 / 2 ^ 52, y = 0, z = - 2, hasSplit = False\<rparr>],
      boundary := \<lparr>bound_x = 1.5, bound_y = 1.0, bound_z = - 4.0\<rparr>,
      spatialGrid := \<lparr>cellSize = 0.5, gridSize = 16, grid = replicate 4096 []\<rparr>,
      rounding := (\<lambda>v. if v = 2 - 3 / 2 ^ 54 then 2 - 1 / 2 ^ 52
                        else if v = 5 / 2 - 1 / 2 ^ 52 then 5 / 2 else v)\<rparr>"

subsection \<open>Predicates of the proofs\<close>

text \<open>The three cell coordinates \<open>getGridIndex\<close> computes for the entity \<open>k\<close>.\<close>

definition cellX :: "world \<Rightarrow> nat \<Rightarrow> int" where
  "cellX s k =
     gridCoordinate (rounding s) (cellSize (spatialGrid s)) (x (positions s ! k))
       (bound_x (boundary s))"

definition cellY :: "world \<Rightarrow> nat \<Rightarrow> int" where
  "cellY s k =
     gridCoordinate (rounding s) (cellSize (spatialGrid s)) (y (positions s ! k))
       (bound_y (boundary s))"

definition cellZ :: "world \<Rightarrow> nat \<Rightarrow> int" where
  "cellZ s k =
     gridCoordinate (rounding s) (cellSize (spatialGrid s)) (z (positions s ! k))
       \<bar>bound_z (boundary s)\<bar>"

text \<open>The flattened cell index \<open>updateGrid\<close> computes for the entity \<open>k\<close>, and its test of
  that index: the entity is stored in the grid when the index is inside the cell array.\<close>

definition cellOf :: "world \<Rightarrow> nat \<Rightarrow> int" where
  "cellOf s k =
     getGridIndex (rounding s) (boundary s) (spatialGrid s) (x (positions s ! k))
       (y (positions s ! k)) (z (positions s ! k))"

definition inGrid :: "world \<Rightarrow> nat \<Rightarrow> bool" where
  "inGrid s k \<longleftrightarrow> 0 \<le> cellOf s k \<and> cellOf s k < int (length (grid (spatialGrid s)))"

text \<open>The range in which the cell arithmetic of the model is that of the program, for the
  entity \<open>k\<close>: a nonzero cell size, so that the quotient is a number, and a grid size and
  cell coordinates of at most \<open>2^16\<close> in absolute value, so that the products and sums of
  the flattened index stay below \<open>2^53\<close> and are exact in doubles.\<close>

definition indexExact :: "world \<Rightarrow> nat \<Rightarrow> bool" where
  "indexExact s k \<longleftrightarrow>
     cellSize (spatialGrid s) \<noteq> 0 \<and> \<bar>gridSize (spatialGrid s)\<bar> \<le> 2 ^ 16 \<and>
     \<bar>cellX s k\<bar> \<le> 2 ^ 16 \<and> \<bar>cellY s k\<bar> \<le> 2 ^ 16 \<and> \<bar>cellZ s k\<bar> \<le> 2 ^ 16"


text \<open>A colour array has four entries, and its three colour channels are in \<open>[0, 1]\<close>.\<close>

definition channelsInRange :: "real list \<Rightarrow> bool" where
  "channelsInRange v \<longleftrightarrow> length v = 4 \<and> (\<forall>i<3. 0 \<le> v ! i \<and> v ! i \<le> 1)"


text \<open>Every index stored in the grid is an index of \<open>positions\<close>.\<close>

definition gridIndicesValid :: "world \<Rightarrow> bool" where
  "gridIndicesValid s \<longleftrightarrow>
     (\<forall>cell \<in> set (grid (spatialGrid s)). \<forall>j \<in> set cell. j < length (positions s))"

text \<open>The entities \<open>getPotentialCollisions\<close> reads for one offset: the members of the cell at
  the flattened index, or nothing when that index is outside the cell array.\<close>

definition neighborCell :: "SpatialGrid \<Rightarrow> int \<Rightarrow> int \<times> int \<times> int \<Rightarrow> nat set" where
  "neighborCell g gi off =
     (case off of (ox, oy, oz) \<Rightarrow>
        if 0 \<le> gi + ox + oy * gridSize g + oz * gridSize g * gridSize g \<and>
           gi + ox + oy * gridSize g + oz * gridSize g * gridSize g < int (length (grid g))
        then set (grid g ! nat (gi + ox + oy * gridSize g + oz * gridSize g * gridSize g))
        else {})"

text \<open>From \<open>s\<close> to \<open>s1\<close> every array has grown by \<open>n\<close> entries, the configuration is the same,
  no split flag has been cleared, and the new entities are all flagged as split.\<close>

definition grows :: "world \<Rightarrow> world \<Rightarrow> nat \<Rightarrow> bool" where
  "grows s s1 n \<longleftrightarrow>
     length (positions s1) = length (positions s) + n \<and>
     length (angles s1) = length (angles s) + n \<and>
     length (speeds s1) = length (speeds s) + n \<and>
     length (colors s1) = length (colors s) + n \<and>
     length (directions s1) = length (directions s) + n \<and>
     boundary s1 = boundary s \<and> spatialGrid s1 = spatialGrid s \<and>
     animationPaused s1 = animationPaused s \<and> randoms s1 = randoms s \<and>
     (\<forall>j < length (positions s). hasSplit (positions s ! j) \<longrightarrow> hasSplit (positions s1 ! j)) \<and>
     (\<forall>j. length (positions s) \<le> j \<and> j < length (positions s1) \<longrightarrow> hasSplit (positions s1 ! j))"

text \<open>The number of entities that have not split.\<close>

definition unsplit :: "world \<Rightarrow> nat" where
  "unsplit s = length (filter (\<lambda>p. \<not> hasSplit p) (positions s))"

text \<open>From \<open>s\<close> to \<open>s1\<close> no entity has gone, no split flag has been cleared, and the new
  entities are all flagged as split.\<close>

definition splitsKept :: "world \<Rightarrow> world \<Rightarrow> bool" where
  "splitsKept s s1 \<longleftrightarrow>
     length (positions s) \<le> length (positions s1) \<and>
     (\<forall>j < length (positions s). hasSplit (positions s ! j) \<longrightarrow> hasSplit (positions s1 ! j)) \<and>
     (\<forall>j. length (positions s) \<le> j \<and> j < length (positions s1) \<longrightarrow> hasSplit (positions s1 ! j))"

section \<open>Subdivision\<close>

lemma getRandomColor_eq:
  "getRandomColor s =
     ([randoms s (drawn s), randoms s (drawn s + 1), randoms s (drawn s + 2), 1],
      s\<lparr>drawn := drawn s + 3\<rparr>)"
  by (simp add: getRandomColor_def Math_random_def)

lemma and_bits:
  "(and i 1 \<noteq> 0) = odd i"
  "(and i 2 \<noteq> 0) = odd (i div 2)"
  "(and i 4 \<noteq> 0) = odd (i div 4)" for i :: nat
proof -
  show "(and i 1 \<noteq> 0) = odd i"
    by (simp add: and_one_eq mod_2_eq_odd)
  show "(and i 2 \<noteq> 0) = odd (i div 2)"
    using and_exp_eq_0_iff_not_bit [of i 1] by (simp add: bit_iff_odd)
  show "(and i 4 \<noteq> 0) = odd (i div 4)"
    using and_exp_eq_0_iff_not_bit [of i 2] by (simp add: bit_iff_odd)
qed

lemma splitChild_simps:
  "positions (splitChild index op s i) = positions s @
         [\<lparr>x = x op + (if odd i then 0.1 else - 0.1),
           y = y op + (if odd (i div 2) then 0.1 else - 0.1),
           z = z op + (if odd (i div 4) then 0.1 else - 0.1), hasSplit = True\<rparr>]"
  "angles (splitChild index op s i) = angles s @ [angles s ! index]"
  "speeds (splitChild index op s i) = speeds s @ [speeds s ! index * 1.2]"
  "colors (splitChild index op s i) = colors s @
         [\<lparr>current = current (colors s ! index),
           target = [randoms s (drawn s), randoms s (drawn s + 1), randoms s (drawn s + 2), 1],
           step = 0\<rparr>]"
  "directions (splitChild index op s i) = directions s @
         [\<lparr>dx = (randoms s (drawn s + 3) - 0.5) * 0.01,
           dy = (randoms s (drawn s + 4) - 0.5) * 0.01,
           dz = (randoms s (drawn s + 5) - 0.5) * 0.01\<rparr>]"
  "drawn (splitChild index op s i) = drawn s + 6"
  "randoms (splitChild index op s i) = randoms s"
  "boundary (splitChild index op s i) = boundary s"
  "spatialGrid (splitChild index op s i) = spatialGrid s"
  "animationPaused (splitChild index op s i) = animationPaused s"
  unfolding splitChild_def and_bits
  by (simp_all add: getRandomColor_eq Math_random_def smallScale_def Let_def add.commute)

lemma split_frame:
  "boundary (foldl (splitChild index op) s ks) = boundary s"
  "spatialGrid (foldl (splitChild index op) s ks) = spatialGrid s"
  "animationPaused (foldl (splitChild index op) s ks) = animationPaused s"
  "randoms (foldl (splitChild index op) s ks) = randoms s"
  "drawn (foldl (splitChild index op) s ks) = drawn s + 6 * length ks"
  by (induction ks arbitrary: s; simp add: splitChild_simps)+

lemma split_positions:
  "positions (foldl (splitChild index op) s ks) = positions s @
     map (\<lambda>i. \<lparr>x = x op + (if odd i then 0.1 else - 0.1),
               y = y op + (if odd (i div 2) then 0.1 else - 0.1),
               z = z op + (if odd (i div 4) then 0.1 else - 0.1), hasSplit = True\<rparr>) ks"
  by (induction ks arbitrary: s) (simp_all add: splitChild_simps)

lemma split_angles:
  "index < length (angles s) \<Longrightarrow>
   angles (foldl (splitChild index op) s ks) = angles s @ replicate (length ks) (angles s ! index)"
  by (induction ks arbitrary: s) (simp_all add: splitChild_simps nth_append replicate_app_Cons_same)

lemma split_speeds:
  "index < length (speeds s) \<Longrightarrow>
   speeds (foldl (splitChild index op) s ks) =
     speeds s @ replicate (length ks) (speeds s ! index * 1.2)"
  by (induction ks arbitrary: s) (simp_all add: splitChild_simps nth_append replicate_app_Cons_same)

lemma upt_shift: "[0..<Suc n] = 0 # map Suc [0..<n]"
  by (simp add: upt_conv_Cons map_Suc_upt del: upt_Suc)

lemma split_colors:
  "index < length (colors s) \<Longrightarrow>
   colors (foldl (splitChild index op) s ks) = colors s @
     map (\<lambda>k. \<lparr>current = current (colors s ! index),
               target = [randoms s (drawn s + 6 * k), randoms s (drawn s + 6 * k + 1),
                         randoms s (drawn s + 6 * k + 2), 1],
               step = 0\<rparr>) [0..<length ks]"
proof (induction ks arbitrary: s)
  case Nil
  then show ?case by simp
next
  case (Cons k ks)
  have "index < length (colors (splitChild index op s k))"
    using Cons.prems by (simp add: splitChild_simps)
  from Cons.IH [OF this] Cons.prems show ?case
    by (simp add: splitChild_simps nth_append upt_shift comp_def add.assoc del: upt_Suc)
qed

lemma split_directions:
  "directions (foldl (splitChild index op) s ks) = directions s @
     map (\<lambda>k. \<lparr>dx = (randoms s (drawn s + 6 * k + 3) - 0.5) * 0.01,
               dy = (randoms s (drawn s + 6 * k + 4) - 0.5) * 0.01,
               dz = (randoms s (drawn s + 6 * k + 5) - 0.5) * 0.01\<rparr>) [0..<length ks]"
proof (induction ks arbitrary: s)
  case Nil
  then show ?case by simp
next
  case (Cons k ks)
  from Cons.IH [of "splitChild index op s k"] show ?case
    by (simp add: splitChild_simps upt_shift comp_def add.assoc del: upt_Suc)
qed


lemma upt_0_8: "[0..<8] = [0, 1, 2, 3, 4, 5, 6, 7::nat]"
  by (simp add: upt_rec)

lemma splitCube_Inr:
  "valid s index \<Longrightarrow> splitCube index s = Inr (foldl (splitChild index (positions s ! index)) s [0..<8])"
  by (simp add: splitCube_def)

lemma split_offsets:
  "map (\<lambda>p. (x p - x op, y p - y op, z p - z op))
     (drop (length (positions s)) (positions (foldl (splitChild index op) s [0..<8]))) =
   [(- 0.1, - 0.1, - 0.1), (0.1, - 0.1, - 0.1), (- 0.1, 0.1, - 0.1), (0.1, 0.1, - 0.1),
    (- 0.1, - 0.1, 0.1), (0.1, - 0.1, 0.1), (- 0.1, 0.1, 0.1), (0.1, 0.1, 0.1)]"
  unfolding split_positions upt_0_8 by simp

lemma split_offsets_cover:
  "distinct (map (\<lambda>p. (x p - x op, y p - y op, z p - z op))
     (drop (length (positions s)) (positions (foldl (splitChild index op) s [0..<8])))) \<and>
   set (map (\<lambda>p. (x p - x op, y p - y op, z p - z op))
     (drop (length (positions s)) (positions (foldl (splitChild index op) s [0..<8])))) =
   {- 0.1, 0.1} \<times> {- 0.1, 0.1} \<times> {- 0.1, 0.1}"
  unfolding split_offsets by auto


text \<open>
  Claim C3. For a parent at a usable index, \<open>splitCube\<close> returns, keeps the old entities
  and appends exactly eight children. Child \<open>i\<close> sits at the parent's position plus
  \<open>(\<plusminus>0.1, \<plusminus>0.1, \<plusminus>0.1)\<close>, the signs given by the bits 0, 1 and 2 of \<open>i\<close>, so that the
  eight offsets are pairwise different and are all eight sign combinations; it has
  \<open>hasSplit = true\<close>, the parent's angle, 1.2 times the parent's speed, a copy of the
  parent's current colour, step 0, a target made of three random numbers of its own and a
  velocity made of three further random numbers of its own, one per axis.
\<close>

theorem C3_splitCube_children:
  assumes "valid s index"
  shows "\<exists>s1. splitCube index s = Inr s1 \<and>
     take (length (positions s)) (positions s1) = positions s \<and>
     length (positions s1) = length (positions s) + 8 \<and>
     length (angles s1) = length (angles s) + 8 \<and>
     length (speeds s1) = length (speeds s) + 8 \<and>
     length (colors s1) = length (colors s) + 8 \<and>
     length (directions s1) = length (directions s) + 8 \<and>
     distinct (map (\<lambda>p. (x p - x (positions s ! index), y p - y (positions s ! index),
                          z p - z (positions s ! index)))
                 (drop (length (positions s)) (positions s1))) \<and>
     set (map (\<lambda>p. (x p - x (positions s ! index), y p - y (positions s ! index),
                     z p - z (positions s ! index)))
            (drop (length (positions s)) (positions s1))) =
       {- 0.1, 0.1} \<times> {- 0.1, 0.1} \<times> {- 0.1, 0.1} \<and>
     (\<forall>i<8.
        positions s1 ! (length (positions s) + i) =
          \<lparr>x = x (positions s ! index) + (if odd i then 0.1 else - 0.1),
            y = y (positions s ! index) + (if odd (i div 2) then 0.1 else - 0.1),
            z = z (positions s ! index) + (if odd (i div 4) then 0.1 else - 0.1),
            hasSplit = True\<rparr> \<and>
        angles s1 ! (length (angles s) + i) = angles s ! index \<and>
        speeds s1 ! (length (speeds s) + i) = speeds s ! index * 1.2 \<and>
        colors s1 ! (length (colors s) + i) =
          \<lparr>current = current (colors s ! index),
            target = [randoms s (drawn s + 6 * i), randoms s (drawn s + 6 * i + 1),
                      randoms s (drawn s + 6 * i + 2), 1],
            step = 0\<rparr> \<and>
        directions s1 ! (length (directions s) + i) =
          \<lparr>dx = (randoms s (drawn s + 6 * i + 3) - 0.5) * 0.01,
            dy = (randoms s (drawn s + 6 * i + 4) - 0.5) * 0.01,
            dz = (randoms s (drawn s + 6 * i + 5) - 0.5) * 0.01\<rparr>)"
proof -
  let ?s1 = "foldl (splitChild index (positions s ! index)) s [0..<8]"
  have v: "index < length (angles s)" "index < length (speeds s)" "index < length (colors s)"
    using assms by (simp_all add: valid_def)
  have "splitCube index s = Inr ?s1"
    using assms by (rule splitCube_Inr)
  moreover have "take (length (positions s)) (positions ?s1) = positions s"
    by (simp add: split_positions)
  moreover have "length (positions ?s1) = length (positions s) + 8"
    by (simp add: split_positions)
  moreover have "length (angles ?s1) = length (angles s) + 8"
    by (simp add: split_angles v)
  moreover have "length (speeds ?s1) = length (speeds s) + 8"
    by (simp add: split_speeds v)
  moreover have "length (colors ?s1) = length (colors s) + 8"
    by (simp add: split_colors v)
  moreover have "length (directions ?s1) = length (directions s) + 8"
    by (simp add: split_directions)
  moreover note split_offsets_cover [of "positions s ! index" s index]
  moreover have "\<forall>i<8. positions ?s1 ! (length (positions s) + i) =
          \<lparr>x = x (positions s ! index) + (if odd i then 0.1 else - 0.1),
            y = y (positions s ! index) + (if odd (i div 2) then 0.1 else - 0.1),
            z = z (positions s ! index) + (if odd (i div 4) then 0.1 else - 0.1),
            hasSplit = True\<rparr>"
    by (simp add: split_positions del: upt_Suc)
  moreover have "\<forall>i<8. angles ?s1 ! (length (angles s) + i) = angles s ! index"
    by (simp add: split_angles v del: upt_Suc)
  moreover have "\<forall>i<8. speeds ?s1 ! (length (speeds s) + i) = speeds s ! index * 1.2"
    by (simp add: split_speeds v del: upt_Suc)
  moreover have "\<forall>i<8. colors ?s1 ! (length (colors s) + i) =
          \<lparr>current = current (colors s ! index),
            target = [randoms s (drawn s + 6 * i), randoms s (drawn s + 6 * i + 1),
                      randoms s (drawn s + 6 * i + 2), 1],
            step = 0\<rparr>"
    by (simp add: split_colors v del: upt_Suc)
  moreover have "\<forall>i<8. directions ?s1 ! (length (directions s) + i) =
          \<lparr>dx = (randoms s (drawn s + 6 * i + 3) - 0.5) * 0.01,
            dy = (randoms s (drawn s + 6 * i + 4) - 0.5) * 0.01,
            dz = (randoms s (drawn s + 6 * i + 5) - 0.5) * 0.01\<rparr>"
    by (simp add: split_directions del: upt_Suc)
  ultimately show ?thesis by blast
qed

theorem C3_splitCube_children_witness:
  "valid exampleWorld 0 \<and>
   (\<exists>s1. splitCube 0 exampleWorld = Inr s1 \<and> length (positions s1) = 10 \<and>
      positions s1 ! 5 = \<lparr>x = 0.1, y = 0.1, z = - 0.85, hasSplit = True\<rparr> \<and>
      speeds s1 ! 5 = 0.012)"
proof -
  have v: "valid exampleWorld 0"
    by (simp add: valid_def exampleWorld_def)
  from C3_splitCube_children [OF v] obtain s1 where
    r: "splitCube 0 exampleWorld = Inr s1"
    and l: "length (positions s1) = length (positions exampleWorld) + 8"
    and c: "\<forall>i<8.
        positions s1 ! (length (positions exampleWorld) + i) =
          \<lparr>x = x (positions exampleWorld ! 0) + (if odd i then 0.1 else - 0.1),
            y = y (positions exampleWorld ! 0) + (if odd (i div 2) then 0.1 else - 0.1),
            z = z (positions exampleWorld ! 0) + (if odd (i div 4) then 0.1 else - 0.1),
            hasSplit = True\<rparr> \<and>
        angles s1 ! (length (angles exampleWorld) + i) = angles exampleWorld ! 0 \<and>
        speeds s1 ! (length (speeds exampleWorld) + i) = speeds exampleWorld ! 0 * 1.2 \<and>
        colors s1 ! (length (colors exampleWorld) + i) =
          \<lparr>current = current (colors exampleWorld ! 0),
            target = [randoms exampleWorld (drawn exampleWorld + 6 * i),
                      randoms exampleWorld (drawn exampleWorld + 6 * i + 1),
                      randoms exampleWorld (drawn exampleWorld + 6 * i + 2), 1],
            step = 0\<rparr> \<and>
        directions s1 ! (length (directions exampleWorld) + i) =
          \<lparr>dx = (randoms exampleWorld (drawn exampleWorld + 6 * i + 3) - 0.5) * 0.01,
            dy = (randoms exampleWorld (drawn exampleWorld + 6 * i + 4) - 0.5) * 0.01,
            dz = (randoms exampleWorld (drawn exampleWorld + 6 * i + 5) - 0.5) * 0.01\<rparr>"
    by blast
  from c have "positions s1 ! (length (positions exampleWorld) + 3) =
          \<lparr>x = x (positions exampleWorld ! 0) + (if odd (3::nat) then 0.1 else - 0.1),
            y = y (positions exampleWorld ! 0) + (if odd ((3::nat) div 2) then 0.1 else - 0.1),
            z = z (positions exampleWorld ! 0) + (if odd ((3::nat) div 4) then 0.1 else - 0.1),
            hasSplit = True\<rparr>"
    and "speeds s1 ! (length (speeds exampleWorld) + 3) = speeds exampleWorld ! 0 * 1.2"
    by simp_all
  then have "positions s1 ! 5 = \<lparr>x = 0.1, y = 0.1, z = - 0.85, hasSplit = True\<rparr>"
    and "speeds s1 ! 5 = 0.012"
    by (simp_all add: exampleWorld_def)
  with v r l show ?thesis
    by (simp add: exampleWorld_def)
qed


section \<open>The cube loop terminates\<close>

lemma uct_frame:
  "positions (snd (updateColorTransition c s)) = positions s"
  "angles (snd (updateColorTransition c s)) = angles s"
  "speeds (snd (updateColorTransition c s)) = speeds s"
  "colors (snd (updateColorTransition c s)) = colors s"
  "directions (snd (updateColorTransition c s)) = directions s"
  "boundary (snd (updateColorTransition c s)) = boundary s"
  "spatialGrid (snd (updateColorTransition c s)) = spatialGrid s"
  "animationPaused (snd (updateColorTransition c s)) = animationPaused s"
  "randoms (snd (updateColorTransition c s)) = randoms s"
  by (simp_all add: updateColorTransition_def getRandomColor_eq Let_def)

lemma checkCandidates_positions:
  "checkCandidates ci cands s = Inr (b, s1) \<Longrightarrow>
   (\<not> b \<and> positions s1 = positions s) \<or>
   (b \<and> ci < length (positions s) \<and> \<not> hasSplit (positions s ! ci) \<and>
    (\<exists>children. length children = 8 \<and> (\<forall>p \<in> set children. hasSplit p) \<and>
       positions s1 = (positions s @ children)[ci := (positions s ! ci)\<lparr>hasSplit := True\<rparr>]))"
proof (induction cands arbitrary: s)
  case Nil
  then show ?case by simp
next
  case (Cons i rest)
  show ?case
  proof (cases "i < length (positions s) \<and> collision (positions s ! ci) (positions s ! i)")
    case False
    with Cons.prems have "checkCandidates ci rest s = Inr (b, s1)"
      by (auto simp add: Let_def split: if_splits)
    from Cons.IH [OF this] show ?thesis .
  next
    case True
    show ?thesis
    proof (cases "hasSplit (positions s ! ci)")
      case True
      with \<open>i < length (positions s) \<and> collision (positions s ! ci) (positions s ! i)\<close> Cons.prems
      have "checkCandidates ci rest
              (s\<lparr>directions := (directions s)
                   [ci := \<lparr>dx = dx (directions s ! ci) * (- 1), dy = dy (directions s ! ci) * (- 1),
                           dz = dz (directions s ! ci) * (- 1)\<rparr>]\<rparr>) = Inr (b, s1)"
        by (auto simp add: Let_def split: if_splits)
      from Cons.IH [OF this] show ?thesis by simp
    next
      case False
      with \<open>i < length (positions s) \<and> collision (positions s ! ci) (positions s ! i)\<close> Cons.prems
      obtain s2 where s2: "splitCube ci s = Inr s2"
        and r: "b" "s1 = s2\<lparr>positions := (positions s2)[ci := (positions s2 ! ci)\<lparr>hasSplit := True\<rparr>]\<rparr>"
        by (auto simp add: Let_def split: if_splits sum.splits)
      from s2 have v: "valid s ci" and e: "s2 = foldl (splitChild ci (positions s ! ci)) s [0..<8]"
        by (auto simp add: splitCube_def split: if_splits)
      from v have lt: "ci < length (positions s)" by (simp add: valid_def)
      let ?children = "map (\<lambda>i. \<lparr>x = x (positions s ! ci) + (if odd i then 0.1 else - 0.1),
               y = y (positions s ! ci) + (if odd (i div 2) then 0.1 else - 0.1),
               z = z (positions s ! ci) + (if odd (i div 4) then 0.1 else - 0.1), hasSplit = True\<rparr>) [0..<8]"
      have "positions s2 = positions s @ ?children"
        unfolding e by (rule split_positions)
      with r lt have "positions s1 = (positions s @ ?children)[ci := (positions s ! ci)\<lparr>hasSplit := True\<rparr>]"
        by (simp add: nth_append)
      moreover have "length ?children = 8" by simp
      moreover have "\<forall>p \<in> set ?children. hasSplit p" by auto
      ultimately show ?thesis using r(1) lt False by blast
    qed
  qed
qed


lemma integrate_simps:
  "angles (integrate i s) = (angles s)[i := angles s ! i + speeds s ! i]"
  "positions (integrate i s) = (positions s)
     [i := (positions s ! i)\<lparr>x := x (positions s ! i) + dx (directions s ! i),
                              y := y (positions s ! i) + dy (directions s ! i),
                              z := z (positions s ! i) + dz (directions s ! i)\<rparr>]"
  "speeds (integrate i s) = speeds s"
  "colors (integrate i s) = colors s"
  "directions (integrate i s) = directions s"
  "boundary (integrate i s) = boundary s"
  "spatialGrid (integrate i s) = spatialGrid s"
  "animationPaused (integrate i s) = animationPaused s"
  "randoms (integrate i s) = randoms s"
  "drawn (integrate i s) = drawn s"
  by (simp_all add: integrate_def Let_def)

lemma boundaryBounce_frame:
  "positions (boundaryBounce i s) = positions s"
  "angles (boundaryBounce i s) = angles s"
  "speeds (boundaryBounce i s) = speeds s"
  "colors (boundaryBounce i s) = colors s"
  "length (directions (boundaryBounce i s)) = length (directions s)"
  "boundary (boundaryBounce i s) = boundary s"
  "spatialGrid (boundaryBounce i s) = spatialGrid s"
  "animationPaused (boundaryBounce i s) = animationPaused s"
  "randoms (boundaryBounce i s) = randoms s"
  "drawn (boundaryBounce i s) = drawn s"
  by (simp_all add: boundaryBounce_def Let_def)

lemma flags_update_same:
  "f v = f (xs ! i) \<Longrightarrow> map f (xs[i := v]) = map f xs"
  by (cases "i < length xs") (auto simp add: list_eq_iff_nth_eq nth_list_update)

lemma integrate_flags:
  "map hasSplit (positions (integrate i s)) = map hasSplit (positions s)"
  by (simp add: integrate_simps flags_update_same)

lemma checkCollisions_positions:
  "checkCollisions ci s = Inr (b, s1) \<Longrightarrow>
   (\<not> b \<and> positions s1 = positions s) \<or>
   (b \<and> ci < length (positions s) \<and> \<not> hasSplit (positions s ! ci) \<and>
    (\<exists>children. length children = 8 \<and> (\<forall>p \<in> set children. hasSplit p) \<and>
       positions s1 = (positions s @ children)[ci := (positions s ! ci)\<lparr>hasSplit := True\<rparr>]))"
  by (auto simp add: checkCollisions_def split: sum.splits dest: checkCandidates_positions)

lemma renderCube_flags:
  assumes "renderCube i s = Inr s1"
  shows "map hasSplit (positions s1) = map hasSplit (positions s) \<or>
     (i < length (positions s) \<and> \<not> hasSplit (positions s ! i) \<and>
      map hasSplit (positions s1) = (map hasSplit (positions s) @ replicate 8 True)[i := True])"
proof -
  let ?u = "updateColorTransition (colors s ! i) s"
  let ?s2 = "(snd ?u)\<lparr>colors := (colors (snd ?u))[i := fst ?u]\<rparr>"
  from assms obtain b s3 where c: "checkCollisions i ?s2 = Inr (b, s3)"
    and e: "s1 = boundaryBounce i (integrate i s3)"
    by (auto simp add: renderCube_def Let_def split_beta split: if_splits sum.splits)
  have p2: "positions ?s2 = positions s" by (simp add: uct_frame)
  have f: "map hasSplit (positions s1) = map hasSplit (positions s3)"
    by (simp add: e boundaryBounce_frame integrate_flags)
  from checkCollisions_positions [OF c] show ?thesis
  proof
    assume "\<not> b \<and> positions s3 = positions ?s2"
    with f p2 show ?thesis by simp
  next
    assume "b \<and> i < length (positions ?s2) \<and> \<not> hasSplit (positions ?s2 ! i) \<and>
      (\<exists>children. length children = 8 \<and> (\<forall>p \<in> set children. hasSplit p) \<and>
       positions s3 = (positions ?s2 @ children)[i := (positions ?s2 ! i)\<lparr>hasSplit := True\<rparr>])"
    then obtain children where l: "i < length (positions s)" and n: "\<not> hasSplit (positions s ! i)"
      and ch: "length children = 8" "\<forall>p \<in> set children. hasSplit p"
      and p3: "positions s3 = (positions s @ children)[i := (positions s ! i)\<lparr>hasSplit := True\<rparr>]"
      unfolding p2 by blast
    from ch have "map hasSplit children = replicate 8 True"
      by (simp add: list_eq_iff_nth_eq)
    with p3 have "map hasSplit (positions s3) = (map hasSplit (positions s) @ replicate 8 True)[i := True]"
      by (simp add: map_update)
    with f l n show ?thesis by simp
  qed
qed

text \<open>Every iteration of the cube loop decreases the variant.\<close>

lemma renderCube_variant:
  assumes "renderCube i s = Inr s1" and "i < length (positions s)"
  shows "renderVariant (Suc i) s1 < renderVariant i s"
proof -
  let ?fl = "map hasSplit (positions s)"
  have d: "drop i ?fl = ?fl ! i # drop (Suc i) ?fl"
    using Cons_nth_drop_Suc [of i ?fl] assms(2) by simp
  from renderCube_flags [OF assms(1)] show ?thesis
  proof
    assume a: "map hasSplit (positions s1) = ?fl"
    then have "length (positions s1) = length (positions s)"
      by (metis length_map)
    with a d assms(2) show ?thesis
      by (auto simp add: renderVariant_def)
  next
    assume a: "i < length (positions s) \<and> \<not> hasSplit (positions s ! i) \<and>
      map hasSplit (positions s1) = (?fl @ replicate 8 True)[i := True]"
    then have "length (map hasSplit (positions s1)) = length (positions s) + 8"
      by simp
    then have len: "length (positions s1) = length (positions s) + 8"
      by simp
    from a have "drop (Suc i) (map hasSplit (positions s1)) = drop (Suc i) ?fl @ replicate 8 True"
      using assms(2) by (simp add: drop_update_cancel)
    with a d len assms(2) show ?thesis
      by (auto simp add: renderVariant_def)
  qed
qed

text \<open>The cube loop terminates, although its bound grows.\<close>

termination renderLoop
  by (relation "measure (\<lambda>(i, s). renderVariant i s)") (simp_all add: renderCube_variant)

declare renderLoop.simps [simp del]


section \<open>Boundary bounce\<close>

text \<open>
  Claim C6. The boundary step of a frame leaves every position as it is (no clamping).
  For the entity \<open>i\<close> it negates the x velocity exactly when the x position is beyond
  \<open>\<plusminus>boundary.x\<close>, the y velocity exactly when the y position is beyond \<open>\<plusminus>boundary.y\<close>,
  and the z velocity exactly when the z position is above -0.5 or below \<open>boundary.z\<close>;
  each axis is decided by its own test alone, and the velocities of the other entities are
  unchanged.
\<close>

theorem C6_boundaryBounce:
  assumes "i < length (positions s)" and "i < length (directions s)"
  shows "positions (boundaryBounce i s) = positions s \<and>
     length (directions (boundaryBounce i s)) = length (directions s) \<and>
     dx (directions (boundaryBounce i s) ! i) =
       (if x (positions s ! i) > bound_x (boundary s) \<or> x (positions s ! i) < - bound_x (boundary s)
        then - dx (directions s ! i) else dx (directions s ! i)) \<and>
     dy (directions (boundaryBounce i s) ! i) =
       (if y (positions s ! i) > bound_y (boundary s) \<or> y (positions s ! i) < - bound_y (boundary s)
        then - dy (directions s ! i) else dy (directions s ! i)) \<and>
     dz (directions (boundaryBounce i s) ! i) =
       (if z (positions s ! i) > - 0.5 \<or> z (positions s ! i) < bound_z (boundary s)
        then - dz (directions s ! i) else dz (directions s ! i)) \<and>
     (\<forall>j. j \<noteq> i \<longrightarrow> directions (boundaryBounce i s) ! j = directions s ! j)"
  using assms(2) by (simp add: boundaryBounce_def Let_def flipX_def flipY_def flipZ_def)


theorem C6_boundaryBounce_witness:
  "0 < length (positions edgeWorld) \<and> 0 < length (directions edgeWorld) \<and>
   positions (boundaryBounce 0 edgeWorld) = positions edgeWorld \<and>
   dx (directions (boundaryBounce 0 edgeWorld) ! 0) = - 0.005 \<and>
   dy (directions (boundaryBounce 0 edgeWorld) ! 0) = 0.003 \<and>
   dz (directions (boundaryBounce 0 edgeWorld) ! 0) = 0.002"
proof -
  have h: "0 < length (positions edgeWorld)" "0 < length (directions edgeWorld)"
    by (simp_all add: edgeWorld_def exampleWorld_def)
  from C6_boundaryBounce [OF h] show ?thesis
    by (simp add: edgeWorld_def exampleWorld_def)
qed

section \<open>Collision candidates and the bounce of a split cube\<close>

lemma Direction_eta: "\<lparr>dx = dx d, dy = dy d, dz = dz d\<rparr> = d"
  by (cases d) simp

lemma checkCandidates_split:
  assumes "hasSplit (positions s ! ci)" and "ci < length (directions s)"
    and "\<forall>j \<in> set cands. j < length (positions s)"
  shows "checkCandidates ci cands s =
     Inr (False, s\<lparr>directions := (directions s)
        [ci := \<lparr>dx = (- 1) ^ length (filter (\<lambda>j. collision (positions s ! ci) (positions s ! j)) cands) * dx (directions s ! ci),
                dy = (- 1) ^ length (filter (\<lambda>j. collision (positions s ! ci) (positions s ! j)) cands) * dy (directions s ! ci),
                dz = (- 1) ^ length (filter (\<lambda>j. collision (positions s ! ci) (positions s ! j)) cands) * dz (directions s ! ci)\<rparr>]\<rparr>)"
  using assms
proof (induction cands arbitrary: s)
  case Nil
  then show ?case by (simp add: Direction_eta)
next
  case (Cons j rest)
  show ?case
  proof (cases "collision (positions s ! ci) (positions s ! j)")
    case False
    with Cons.prems Cons.IH [of s] show ?thesis by (simp add: Let_def)
  next
    case True
    let ?s1 = "s\<lparr>directions := (directions s)
        [ci := \<lparr>dx = dx (directions s ! ci) * (- 1), dy = dy (directions s ! ci) * (- 1),
                dz = dz (directions s ! ci) * (- 1)\<rparr>]\<rparr>"
    have "checkCandidates ci (j # rest) s = checkCandidates ci rest ?s1"
      using True Cons.prems by (simp add: Let_def)
    moreover have "hasSplit (positions ?s1 ! ci)" "ci < length (directions ?s1)"
      "\<forall>j \<in> set rest. j < length (positions ?s1)"
      using Cons.prems by simp_all
    note Cons.IH [OF this]
    ultimately show ?thesis
      using True Cons.prems by (simp add: Let_def)
  qed
qed


lemma scanCell_set:
  "set (foldl (\<lambda>c idx. if idx \<noteq> ci then Set_add c idx else c) c cell) = set c \<union> (set cell - {ci})"
  by (induction cell arbitrary: c) (auto simp add: Set_add_def)

lemma scanCell_distinct:
  "distinct c \<Longrightarrow> distinct (foldl (\<lambda>c idx. if idx \<noteq> ci then Set_add c idx else c) c cell)"
  by (induction cell arbitrary: c) (auto simp add: Set_add_def)

lemma scanNeighbor_set:
  "set (scanNeighbor ci g gi c (ox, oy, oz)) = set c \<union>
     (if 0 \<le> gi + ox + oy * gridSize g + oz * gridSize g * gridSize g \<and>
         gi + ox + oy * gridSize g + oz * gridSize g * gridSize g < int (length (grid g))
      then set (grid g ! nat (gi + ox + oy * gridSize g + oz * gridSize g * gridSize g)) - {ci}
      else {})"
  by (simp add: scanNeighbor_def Let_def scanCell_set)

lemma scanNeighbors_set:
  "set (foldl (scanNeighbor ci g gi) c offs) =
     set c \<union> ((\<Union>off \<in> set offs. neighborCell g gi off) - {ci})"
proof (induction offs arbitrary: c)
  case Nil
  then show ?case by simp
next
  case (Cons off offs)
  obtain ox oy oz where off: "off = (ox, oy, oz)" by (cases off) auto
  show ?case
    unfolding foldl_Cons Cons.IH off scanNeighbor_set
    by (auto simp add: neighborCell_def)
qed

lemma getPotentialCollisions_set:
  assumes "ci < length (positions s)"
  shows "\<exists>cands. getPotentialCollisions ci s = Inr cands \<and>
     set cands = (\<Union>off \<in> set neighborOffsets.
        neighborCell (spatialGrid s)
          (getGridIndex (rounding s) (boundary s) (spatialGrid s) (x (positions s ! ci)) (y (positions s ! ci))
             (z (positions s ! ci))) off) - {ci}"
  using assms by (simp add: getPotentialCollisions_def Let_def scanNeighbors_set)

lemma neighborCell_valid:
  "gridIndicesValid s \<Longrightarrow> j \<in> neighborCell (spatialGrid s) gi off \<Longrightarrow> j < length (positions s)"
  by (cases off) (auto simp add: neighborCell_def gridIndicesValid_def split: if_splits)

lemma candidates_valid:
  assumes "gridIndicesValid s" and "getPotentialCollisions ci s = Inr cands"
  shows "\<forall>j \<in> set cands. j < length (positions s)"
proof -
  from assms(2) have "ci < length (positions s)"
    by (simp add: getPotentialCollisions_def split: if_splits)
  from getPotentialCollisions_set [OF this] assms show ?thesis
    by (auto dest: neighborCell_valid)
qed


text \<open>
  Claim C8. For an entity that has split, on a grid whose indices are indices of
  \<open>positions\<close>, \<open>checkCollisions\<close> returns \<open>false\<close>, after scanning all the candidates: with
  \<open>k\<close> the number of candidates that overlap the entity, each of the three velocity
  components is \<open>(-1)^k\<close> times its value before the call, and nothing else changes.
\<close>

theorem C8_checkCollisions_split:
  assumes "cubeIndex < length (positions s)" and "cubeIndex < length (directions s)"
    and "hasSplit (positions s ! cubeIndex)" and "gridIndicesValid s"
  shows "\<exists>candidates k. getPotentialCollisions cubeIndex s = Inr candidates \<and>
     k = length (filter (\<lambda>j. collision (positions s ! cubeIndex) (positions s ! j)) candidates) \<and>
     checkCollisions cubeIndex s =
       Inr (False, s\<lparr>directions := (directions s)
          [cubeIndex := \<lparr>dx = (- 1) ^ k * dx (directions s ! cubeIndex),
                         dy = (- 1) ^ k * dy (directions s ! cubeIndex),
                         dz = (- 1) ^ k * dz (directions s ! cubeIndex)\<rparr>]\<rparr>)"
proof -
  from getPotentialCollisions_set [OF assms(1)] obtain cands where
    c: "getPotentialCollisions cubeIndex s = Inr cands" by blast
  from candidates_valid [OF assms(4) c] have "\<forall>j \<in> set cands. j < length (positions s)" .
  from checkCandidates_split [OF assms(3) assms(2) this] c show ?thesis
    by (simp add: checkCollisions_def)
qed

theorem C8_checkCollisions_split_witness:
  "0 < length (positions bounceWorld) \<and> 0 < length (directions bounceWorld) \<and>
   hasSplit (positions bounceWorld ! 0) \<and> gridIndicesValid bounceWorld \<and>
   checkCollisions 0 bounceWorld =
     Inr (False, bounceWorld\<lparr>directions := (directions bounceWorld)
        [0 := \<lparr>dx = - 0.005, dy = - 0.003, dz = - 0.002\<rparr>]\<rparr>)"
proof -
  have h: "0 < length (positions bounceWorld)" "0 < length (directions bounceWorld)"
    "hasSplit (positions bounceWorld ! 0)" "gridIndicesValid bounceWorld"
    by (simp_all add: bounceWorld_def exampleWorld_def gridIndicesValid_def)
  have c: "getPotentialCollisions 0 bounceWorld = Inr [1]"
    by code_simp
  have k: "length (filter (\<lambda>j. collision (positions bounceWorld ! 0) (positions bounceWorld ! j)) [1]) = 1"
    by (simp add: bounceWorld_def exampleWorld_def collision_def cubeSize_def)
  from C8_checkCollisions_split [OF h] c k
  have "checkCollisions 0 bounceWorld =
     Inr (False, bounceWorld\<lparr>directions := (directions bounceWorld)
        [0 := \<lparr>dx = (- 1) ^ 1 * dx (directions bounceWorld ! 0),
                dy = (- 1) ^ 1 * dy (directions bounceWorld ! 0),
                dz = (- 1) ^ 1 * dz (directions bounceWorld ! 0)\<rparr>]\<rparr>)"
    by auto
  moreover have "directions bounceWorld ! 0 = \<lparr>dx = 0.005, dy = 0.003, dz = 0.002\<rparr>"
    by (simp add: bounceWorld_def exampleWorld_def)
  ultimately show ?thesis using h by simp
qed


section \<open>The colour-sync control\<close>

lemma syncColors_frame:
  "positions (snd (syncColors color cs s)) = positions s"
  "angles (snd (syncColors color cs s)) = angles s"
  "speeds (snd (syncColors color cs s)) = speeds s"
  "colors (snd (syncColors color cs s)) = colors s"
  "directions (snd (syncColors color cs s)) = directions s"
  "boundary (snd (syncColors color cs s)) = boundary s"
  "spatialGrid (snd (syncColors color cs s)) = spatialGrid s"
  "animationPaused (snd (syncColors color cs s)) = animationPaused s"
  "randoms (snd (syncColors color cs s)) = randoms s"
  "drawn (snd (syncColors color cs s)) = drawn s + 3 * length cs"
  by (induction cs arbitrary: s; simp add: getRandomColor_eq split_beta)+

lemma syncColors_length: "length (fst (syncColors color cs s)) = length cs"
  by (induction cs arbitrary: s) (simp_all add: getRandomColor_eq split_beta)

lemma syncColors_nth:
  "k < length cs \<Longrightarrow>
   fst (syncColors color cs s) ! k =
     (cs ! k)\<lparr>current := color,
               target := [randoms s (drawn s + 3 * k), randoms s (drawn s + 3 * k + 1),
                          randoms s (drawn s + 3 * k + 2), 1]\<rparr>"
proof (induction cs arbitrary: s k)
  case Nil
  then show ?case by simp
next
  case (Cons c cs)
  show ?case
  proof (cases k)
    case 0
    then show ?thesis by (simp add: getRandomColor_eq split_beta)
  next
    case (Suc m)
    with Cons.prems have "m < length cs" by simp
    from Cons.IH [OF this, of "s\<lparr>drawn := drawn s + 3\<rparr>"] Suc show ?thesis
      by (simp add: getRandomColor_eq split_beta add.assoc add.commute add.left_commute)
  qed
qed


text \<open>
  Claim C1, as the code has it. The colour-sync handler gives every entity one and the
  same current colour, made of the first three random numbers it draws; it gives entity
  \<open>k\<close> a target made of three further random numbers of its own; and it leaves every
  \<open>step\<close> as it was. Positions and velocities are untouched.
\<close>

theorem C1_colorSync:
  "positions (colorSyncButton_onclick s) = positions s \<and>
   directions (colorSyncButton_onclick s) = directions s \<and>
   length (colors (colorSyncButton_onclick s)) = length (colors s) \<and>
   (\<forall>k < length (colors s).
      current (colors (colorSyncButton_onclick s) ! k) =
        [randoms s (drawn s), randoms s (drawn s + 1), randoms s (drawn s + 2), 1] \<and>
      target (colors (colorSyncButton_onclick s) ! k) =
        [randoms s (drawn s + 3 + 3 * k), randoms s (drawn s + 3 + 3 * k + 1),
         randoms s (drawn s + 3 + 3 * k + 2), 1] \<and>
      step (colors (colorSyncButton_onclick s) ! k) = step (colors s ! k))"
  by (simp add: colorSyncButton_onclick_def getRandomColor_eq split_beta syncColors_frame
      syncColors_length syncColors_nth add.assoc)


text \<open>The claim as stated says that the handler resets every \<open>step\<close> to 0. It does not: a
  step of 0.005 is still 0.005 after the call.\<close>

theorem C1_step_not_reset:
  "step (colors (colorSyncButton_onclick tickedWorld) ! 0) \<noteq> 0"
proof -
  have "0 < length (colors tickedWorld)"
    by (simp add: tickedWorld_def exampleWorld_def)
  then have "step (colors (colorSyncButton_onclick tickedWorld) ! 0) = step (colors tickedWorld ! 0)"
    by (simp add: colorSyncButton_onclick_def getRandomColor_eq split_beta syncColors_nth)
  then show ?thesis
    by (simp add: tickedWorld_def exampleWorld_def)
qed


theorem C1_colorSync_witness:
  "1 < length (colors tickedWorld) \<and>
   current (colors (colorSyncButton_onclick tickedWorld) ! 0) = [1 / 2, 1 / 3, 1 / 4, 1] \<and>
   current (colors (colorSyncButton_onclick tickedWorld) ! 1) = [1 / 2, 1 / 3, 1 / 4, 1] \<and>
   target (colors (colorSyncButton_onclick tickedWorld) ! 0) = [1 / 5, 1 / 6, 1 / 7, 1] \<and>
   target (colors (colorSyncButton_onclick tickedWorld) ! 1) = [1 / 8, 1 / 9, 1 / 10, 1] \<and>
   step (colors (colorSyncButton_onclick tickedWorld) ! 1) = 0.005"
proof -
  have l: "length (colors tickedWorld) = 2"
    by (simp add: tickedWorld_def exampleWorld_def)
  have r: "randoms tickedWorld = (\<lambda>n. 1 / (real n + 2))" "drawn tickedWorld = 0"
    "step (colors tickedWorld ! 1) = 0.005"
    by (simp_all add: tickedWorld_def exampleWorld_def)
  from C1_colorSync [of tickedWorld] have
    "\<forall>k < 2.
      current (colors (colorSyncButton_onclick tickedWorld) ! k) =
        [randoms tickedWorld (drawn tickedWorld), randoms tickedWorld (drawn tickedWorld + 1),
         randoms tickedWorld (drawn tickedWorld + 2), 1] \<and>
      target (colors (colorSyncButton_onclick tickedWorld) ! k) =
        [randoms tickedWorld (drawn tickedWorld + 3 + 3 * k),
         randoms tickedWorld (drawn tickedWorld + 3 + 3 * k + 1),
         randoms tickedWorld (drawn tickedWorld + 3 + 3 * k + 2), 1] \<and>
      step (colors (colorSyncButton_onclick tickedWorld) ! k) = step (colors tickedWorld ! k)"
    unfolding l by blast
  then have "current (colors (colorSyncButton_onclick tickedWorld) ! 0) =
        [randoms tickedWorld (drawn tickedWorld), randoms tickedWorld (drawn tickedWorld + 1),
         randoms tickedWorld (drawn tickedWorld + 2), 1]"
    "target (colors (colorSyncButton_onclick tickedWorld) ! 0) =
        [randoms tickedWorld (drawn tickedWorld + 3 + 3 * 0),
         randoms tickedWorld (drawn tickedWorld + 3 + 3 * 0 + 1),
         randoms tickedWorld (drawn tickedWorld + 3 + 3 * 0 + 2), 1]"
    "current (colors (colorSyncButton_onclick tickedWorld) ! 1) =
        [randoms tickedWorld (drawn tickedWorld), randoms tickedWorld (drawn tickedWorld + 1),
         randoms tickedWorld (drawn tickedWorld + 2), 1]"
    "target (colors (colorSyncButton_onclick tickedWorld) ! 1) =
        [randoms tickedWorld (drawn tickedWorld + 3 + 3 * 1),
         randoms tickedWorld (drawn tickedWorld + 3 + 3 * 1 + 1),
         randoms tickedWorld (drawn tickedWorld + 3 + 3 * 1 + 2), 1]"
    "step (colors (colorSyncButton_onclick tickedWorld) ! 1) = step (colors tickedWorld ! 1)"
    by simp_all
  then show ?thesis
    unfolding r using l by simp
qed


section \<open>The grid constructor\<close>

lemma worldSizeOf_nonneg: "0 \<le> worldSizeOf b"
  by (simp add: worldSizeOf_def le_max_iff_disj)

lemma cube_neg: "(g::int) < 0 \<Longrightarrow> g * g * g < 0"
  by (simp add: mult_neg_neg mult_pos_neg)

lemma cube_nonneg: "(0::int) \<le> g \<Longrightarrow> 0 \<le> g * g * g"
  by simp


text \<open>
  Claim C2, as the code has it. The constructor validates nothing; what fails is the
  allocation of the cell array. The world size is \<open>max(boundary.x, boundary.y, |boundary.z|)\<close>,
  never negative. A cell size of zero, or a negative cell size of magnitude at most twice
  the world size, ends the initialisation with a \<open>RangeError\<close>. With a positive cell size
  a grid is returned whenever its cell count is below \<open>2^32\<close>, whatever the world
  extents are.
\<close>

theorem C2_spatialGrid_init:
  "(cs = 0 \<or> (cs < 0 \<and> - cs \<le> 2 * worldSizeOf b) \<longrightarrow> spatialGrid_init b cs = Inl RangeError) \<and>
   (0 < cs \<and> \<lceil>worldSizeOf b * 2 / cs\<rceil> ^ 3 < 2 ^ 32 \<longrightarrow>
      spatialGrid_init b cs =
        Inr \<lparr>cellSize = cs, gridSize = \<lceil>worldSizeOf b * 2 / cs\<rceil>,
             grid = replicate (nat (\<lceil>worldSizeOf b * 2 / cs\<rceil> ^ 3)) []\<rparr>)"
proof (intro conjI impI)
  assume a: "cs = 0 \<or> (cs < 0 \<and> - cs \<le> 2 * worldSizeOf b)"
  show "spatialGrid_init b cs = Inl RangeError"
  proof (cases "cs = 0")
    case True
    then show ?thesis by (simp add: spatialGrid_init_def SpatialGrid_new_def)
  next
    case False
    with a have n: "cs < 0" "- cs \<le> 2 * worldSizeOf b" by auto
    then have "worldSizeOf b * 2 / cs \<le> of_int (- 1)"
      by (simp add: divide_le_eq mult.commute)
    then have "\<lceil>worldSizeOf b * 2 / cs\<rceil> \<le> - 1"
      by (rule ceiling_le)
    then have "\<lceil>worldSizeOf b * 2 / cs\<rceil> < 0" by linarith
    from cube_neg [OF this] False show ?thesis
      by (simp add: spatialGrid_init_def SpatialGrid_new_def Let_def)
  qed
next
  assume a: "0 < cs \<and> \<lceil>worldSizeOf b * 2 / cs\<rceil> ^ 3 < 2 ^ 32"
  then have "0 \<le> worldSizeOf b * 2 / cs"
    using worldSizeOf_nonneg [of b] by simp
  then have "0 \<le> \<lceil>worldSizeOf b * 2 / cs\<rceil>"
    by (simp add: le_ceiling_iff)
  from cube_nonneg [OF this] a
  show "spatialGrid_init b cs =
        Inr \<lparr>cellSize = cs, gridSize = \<lceil>worldSizeOf b * 2 / cs\<rceil>,
             grid = replicate (nat (\<lceil>worldSizeOf b * 2 / cs\<rceil> ^ 3)) []\<rparr>"
    by (simp add: spatialGrid_init_def SpatialGrid_new_def Let_def power3_eq_cube)
qed


text \<open>The claim as stated says that non-positive world extents are rejected. With all
  extents zero and the cell size of the source, the constructor returns a grid without a
  cell.\<close>

theorem C2_degenerate_grid_built:
  "spatialGrid_init \<lparr>bound_x = 0, bound_y = 0, bound_z = 0\<rparr> 0.5 =
     Inr \<lparr>cellSize = 0.5, gridSize = 0, grid = []\<rparr>"
  by (simp add: spatialGrid_init_def SpatialGrid_new_def worldSizeOf_def)


theorem C2_spatialGrid_init_witness:
  "spatialGrid_init \<lparr>bound_x = 1.5, bound_y = 1.0, bound_z = - 4.0\<rparr> 0 = Inl RangeError \<and>
   spatialGrid_init \<lparr>bound_x = 1.5, bound_y = 1.0, bound_z = - 4.0\<rparr> (- 0.5) = Inl RangeError \<and>
   spatialGrid_init \<lparr>bound_x = 1.5, bound_y = 1.0, bound_z = - 4.0\<rparr> 0.5 =
     Inr \<lparr>cellSize = 0.5, gridSize = 16, grid = replicate 4096 []\<rparr>"
proof -
  let ?b = "\<lparr>bound_x = 1.5, bound_y = 1.0, bound_z = - 4.0\<rparr>"
  have w: "worldSizeOf ?b = 4"
    by (simp add: worldSizeOf_def)
  have c: "\<lceil>worldSizeOf ?b * 2 / 0.5\<rceil> = 16"
    unfolding w by simp
  from C2_spatialGrid_init [of 0 ?b] have "spatialGrid_init ?b 0 = Inl RangeError"
    by simp
  moreover from C2_spatialGrid_init [of "- 0.5" ?b] have "spatialGrid_init ?b (- 0.5) = Inl RangeError"
    unfolding w by simp
  moreover from C2_spatialGrid_init [of "0.5" ?b] have "spatialGrid_init ?b 0.5 =
     Inr \<lparr>cellSize = 0.5, gridSize = 16, grid = replicate 4096 []\<rparr>"
    unfolding c by simp
  ultimately show ?thesis by simp
qed


section \<open>Colour bounds\<close>

lemma upt_0_3: "[0..<3] = [0, 1, 2::nat]"
  by (simp add: upt_rec)

lemma length4: "length v = 4 \<Longrightarrow> \<exists>a b c d. v = [a, b, c, d]"
  by (auto simp add: numeral_eq_Suc length_Suc_conv)

lemma all_less_3: "(\<forall>i<3. P i) \<longleftrightarrow> P 0 \<and> P 1 \<and> P 2" for P :: "nat \<Rightarrow> bool"
proof
  assume "\<forall>i<3. P i"
  then show "P 0 \<and> P 1 \<and> P 2" by simp
next
  assume h: "P 0 \<and> P 1 \<and> P 2"
  show "\<forall>i<3. P i"
  proof (intro allI impI)
    fix i :: nat
    assume "i < 3"
    then have "i = 0 \<or> i = 1 \<or> i = 2" by arith
    with h show "P i" by auto
  qed
qed

lemma channelsInRange_list:
  "channelsInRange [a, b, c, d] \<longleftrightarrow> 0 \<le> a \<and> a \<le> 1 \<and> 0 \<le> b \<and> b \<le> 1 \<and> 0 \<le> c \<and> c \<le> 1"
  by (simp add: channelsInRange_def all_less_3)

lemma blend_bounds:
  fixes c t :: real
  assumes "0 \<le> c" "c \<le> 1" "0 \<le> t" "t \<le> 1"
  shows "0 \<le> c + (t - c) / 50" and "c + (t - c) / 50 \<le> 1"
proof -
  from assms show "0 \<le> c + (t - c) / 50" by (simp add: field_simps)
  from assms show "c + (t - c) / 50 \<le> 1" by (simp add: field_simps)
qed

lemma blend_channels:
  assumes "channelsInRange cur" and "channelsInRange tgt"
  shows "channelsInRange (foldl (blendChannel tgt) cur [0..<3])"
proof -
  from assms obtain a b c d e f g h where v: "cur = [a, b, c, d]" "tgt = [e, f, g, h]"
    using length4 [of cur] length4 [of tgt] by (auto simp add: channelsInRange_def)
  from assms show ?thesis
    unfolding v upt_0_3 by (simp add: channelsInRange_list blendChannel_def blend_bounds)
qed

lemma updateColorTransition_range:
  assumes "channelsInRange (current c)" and "channelsInRange (target c)"
    and "\<forall>n. 0 \<le> randoms s n \<and> randoms s n \<le> 1"
  shows "channelsInRange (current (fst (updateColorTransition c s)))"
    and "channelsInRange (target (fst (updateColorTransition c s)))"
    and "randoms (snd (updateColorTransition c s)) = randoms s"
  using assms blend_channels [OF assms(1,2)]
  by (simp_all add: updateColorTransition_def Let_def getRandomColor_eq channelsInRange_list)

lemma advance_range:
  assumes "channelsInRange (current c)" and "channelsInRange (target c)"
    and "\<forall>n. 0 \<le> randoms s n \<and> randoms s n \<le> 1"
  shows "channelsInRange (current (fst (advance n c s)))"
  using assms
proof (induction n arbitrary: c s)
  case 0
  then show ?case by simp
next
  case (Suc n)
  from updateColorTransition_range [OF Suc.prems] Suc.prems(3)
  have "channelsInRange (current (fst (updateColorTransition c s)))"
    "channelsInRange (target (fst (updateColorTransition c s)))"
    "\<forall>n. 0 \<le> randoms (snd (updateColorTransition c s)) n \<and> randoms (snd (updateColorTransition c s)) n \<le> 1"
    by simp_all
  from Suc.IH [OF this] show ?case
    by (simp add: split_beta)
qed


text \<open>
  Claim C5. Let a colour object have four-entry arrays whose colour channels (indices 0
  to 2) of \<open>current\<close> and \<open>target\<close> are in \<open>[0, 1]\<close>, and let \<open>Math.random\<close> return values in
  \<open>[0, 1]\<close>. After any number of calls of \<open>updateColorTransition\<close>, retargeting included,
  every colour channel of \<open>current\<close> is in \<open>[0, 1]\<close>.
\<close>

theorem C5_color_bounds:
  assumes "length (current c) = 4" and "length (target c) = 4"
    and "\<forall>i<3. 0 \<le> current c ! i \<and> current c ! i \<le> 1"
    and "\<forall>i<3. 0 \<le> target c ! i \<and> target c ! i \<le> 1"
    and "\<forall>n. 0 \<le> randoms s n \<and> randoms s n \<le> 1"
  shows "\<forall>i<3. 0 \<le> current (fst (advance n c s)) ! i \<and> current (fst (advance n c s)) ! i \<le> 1"
proof -
  from assms have "channelsInRange (current c)" "channelsInRange (target c)"
    by (simp_all add: channelsInRange_def)
  from advance_range [OF this assms(5)] show ?thesis
    by (simp add: channelsInRange_def)
qed


theorem C5_color_bounds_witness:
  "length (current nearlyDone) = 4 \<and> length (target nearlyDone) = 4 \<and>
   (\<forall>n. 0 \<le> randoms exampleWorld n \<and> randoms exampleWorld n \<le> 1) \<and>
   target (fst (advance 1 nearlyDone exampleWorld)) = [1 / 2, 1 / 3, 1 / 4, 1] \<and>
   0 \<le> current (fst (advance 2 nearlyDone exampleWorld)) ! 0 \<and>
   current (fst (advance 2 nearlyDone exampleWorld)) ! 0 \<le> 1 \<and>
   0 \<le> current (fst (advance 2 nearlyDone exampleWorld)) ! 1 \<and>
   current (fst (advance 2 nearlyDone exampleWorld)) ! 1 \<le> 1 \<and>
   0 \<le> current (fst (advance 2 nearlyDone exampleWorld)) ! 2 \<and>
   current (fst (advance 2 nearlyDone exampleWorld)) ! 2 \<le> 1"
proof -
  have l: "length (current nearlyDone) = 4" "length (target nearlyDone) = 4"
    by (simp_all add: nearlyDone_def)
  have c: "\<forall>i<3. 0 \<le> current nearlyDone ! i \<and> current nearlyDone ! i \<le> 1"
    by (simp add: all_less_3 nearlyDone_def)
  have t: "\<forall>i<3. 0 \<le> target nearlyDone ! i \<and> target nearlyDone ! i \<le> 1"
    by (simp add: all_less_3 nearlyDone_def)
  have r: "\<forall>n. 0 \<le> randoms exampleWorld n \<and> randoms exampleWorld n \<le> 1"
    by (simp add: exampleWorld_def field_simps)
  have a: "target (fst (advance 1 nearlyDone exampleWorld)) = [1 / 2, 1 / 3, 1 / 4, 1]"
    by (simp add: nearlyDone_def exampleWorld_def updateColorTransition_def getRandomColor_eq Let_def)
  from C5_color_bounds [OF l c t r, of 2]
  have "0 \<le> current (fst (advance 2 nearlyDone exampleWorld)) ! 0 \<and>
        current (fst (advance 2 nearlyDone exampleWorld)) ! 0 \<le> 1 \<and>
        0 \<le> current (fst (advance 2 nearlyDone exampleWorld)) ! 1 \<and>
        current (fst (advance 2 nearlyDone exampleWorld)) ! 1 \<le> 1 \<and>
        0 \<le> current (fst (advance 2 nearlyDone exampleWorld)) ! 2 \<and>
        current (fst (advance 2 nearlyDone exampleWorld)) ! 2 \<le> 1"
    unfolding all_less_3 by blast
  with l r a show ?thesis
    by blast
qed


section \<open>What one iteration and the whole loop do to the arrays\<close>

lemma checkCandidates_cases:
  assumes "checkCandidates ci cands s = Inr (b, s1)"
  shows "(b \<and> \<not> hasSplit (positions s ! ci) \<and>
          (\<exists>s2. splitCube ci s = Inr s2 \<and>
             s1 = s2\<lparr>positions := (positions s2)[ci := (positions s2 ! ci)\<lparr>hasSplit := True\<rparr>]\<rparr>)) \<or>
         (\<not> b \<and> (\<exists>ds. length ds = length (directions s) \<and> s1 = s\<lparr>directions := ds\<rparr>))"
  using assms
proof (induction cands arbitrary: s)
  case Nil
  then have "s1 = s\<lparr>directions := directions s\<rparr>" "\<not> b" by simp_all
  then show ?case by blast
next
  case (Cons i rest)
  show ?case
  proof (cases "i < length (positions s) \<and> collision (positions s ! ci) (positions s ! i)")
    case False
    with Cons.prems have "checkCandidates ci rest s = Inr (b, s1)"
      by (auto simp add: Let_def split: if_splits)
    from Cons.IH [OF this] show ?thesis .
  next
    case True
    note col = this
    show ?thesis
    proof (cases "hasSplit (positions s ! ci)")
      case True
      let ?s = "s\<lparr>directions := (directions s)
                   [ci := \<lparr>dx = dx (directions s ! ci) * (- 1), dy = dy (directions s ! ci) * (- 1),
                           dz = dz (directions s ! ci) * (- 1)\<rparr>]\<rparr>"
      from True col Cons.prems have "checkCandidates ci rest ?s = Inr (b, s1)"
        by (auto simp add: Let_def split: if_splits)
      from Cons.IH [OF this] True show ?thesis by auto
    next
      case False
      with col Cons.prems show ?thesis
        by (auto simp add: Let_def split: if_splits sum.splits)
    qed
  qed
qed

lemma checkCollisions_cases:
  assumes "checkCollisions ci s = Inr (b, s1)"
  shows "(b \<and> \<not> hasSplit (positions s ! ci) \<and>
          (\<exists>s2. splitCube ci s = Inr s2 \<and>
             s1 = s2\<lparr>positions := (positions s2)[ci := (positions s2 ! ci)\<lparr>hasSplit := True\<rparr>]\<rparr>)) \<or>
         (\<not> b \<and> (\<exists>ds. length ds = length (directions s) \<and> s1 = s\<lparr>directions := ds\<rparr>))"
  using assms by (auto simp add: checkCollisions_def split: sum.splits dest: checkCandidates_cases)

text \<open>What a successful call of splitCube does to the arrays.\<close>

lemma splitCube_effect:
  assumes "splitCube ci s = Inr s2"
  shows "valid s ci"
    and "\<exists>children. length children = 8 \<and> (\<forall>p \<in> set children. hasSplit p) \<and>
           positions s2 = positions s @ children"
    and "length (angles s2) = length (angles s) + 8"
    and "length (speeds s2) = length (speeds s) + 8"
    and "length (colors s2) = length (colors s) + 8"
    and "length (directions s2) = length (directions s) + 8"
    and "boundary s2 = boundary s" and "spatialGrid s2 = spatialGrid s"
    and "animationPaused s2 = animationPaused s" and "randoms s2 = randoms s"
proof -
  from assms show v: "valid s ci"
    by (simp add: splitCube_def split: if_splits)
  with assms have e: "s2 = foldl (splitChild ci (positions s ! ci)) s [0..<8]"
    by (simp add: splitCube_def)
  from v have i: "ci < length (angles s)" "ci < length (speeds s)" "ci < length (colors s)"
    by (simp_all add: valid_def)
  let ?children = "map (\<lambda>i. \<lparr>x = x (positions s ! ci) + (if odd i then 0.1 else - 0.1),
               y = y (positions s ! ci) + (if odd (i div 2) then 0.1 else - 0.1),
               z = z (positions s ! ci) + (if odd (i div 4) then 0.1 else - 0.1), hasSplit = True\<rparr>) [0..<8]"
  have "positions s2 = positions s @ ?children"
    unfolding e by (rule split_positions)
  moreover have "length ?children = 8" by simp
  moreover have "\<forall>p \<in> set ?children. hasSplit p" by auto
  ultimately show "\<exists>children. length children = 8 \<and> (\<forall>p \<in> set children. hasSplit p) \<and>
           positions s2 = positions s @ children" by blast
  show "length (angles s2) = length (angles s) + 8"
    unfolding e by (simp add: split_angles i)
  show "length (speeds s2) = length (speeds s) + 8"
    unfolding e by (simp add: split_speeds i)
  show "length (colors s2) = length (colors s) + 8"
    unfolding e by (simp add: split_colors i)
  show "length (directions s2) = length (directions s) + 8"
    unfolding e by (simp add: split_directions)
  show "boundary s2 = boundary s" "spatialGrid s2 = spatialGrid s"
    "animationPaused s2 = animationPaused s" "randoms s2 = randoms s"
    unfolding e by (simp_all add: split_frame)
qed

lemma checkCollisions_grows:
  assumes "checkCollisions ci s = Inr (b, s1)"
  shows "grows s s1 (if b then 8 else 0)"
  using checkCollisions_cases [OF assms]
proof
  assume "b \<and> \<not> hasSplit (positions s ! ci) \<and>
          (\<exists>s2. splitCube ci s = Inr s2 \<and>
             s1 = s2\<lparr>positions := (positions s2)[ci := (positions s2 ! ci)\<lparr>hasSplit := True\<rparr>]\<rparr>)"
  then obtain s2 where b: b and sp: "splitCube ci s = Inr s2"
    and e: "s1 = s2\<lparr>positions := (positions s2)[ci := (positions s2 ! ci)\<lparr>hasSplit := True\<rparr>]\<rparr>"
    by blast
  from splitCube_effect(2) [OF sp] obtain children where
    ch: "length children = 8" "\<forall>p \<in> set children. hasSplit p" "positions s2 = positions s @ children"
    by blast
  from splitCube_effect(1) [OF sp] have lt: "ci < length (positions s)"
    by (simp add: valid_def)
  have old: "\<forall>j < length (positions s). hasSplit (positions s ! j) \<longrightarrow> hasSplit (positions s1 ! j)"
    using ch lt by (auto simp add: e nth_list_update nth_append)
  have new: "\<forall>j. length (positions s) \<le> j \<and> j < length (positions s1) \<longrightarrow> hasSplit (positions s1 ! j)"
  proof (intro allI impI)
    fix j assume j: "length (positions s) \<le> j \<and> j < length (positions s1)"
    with ch have "j - length (positions s) < length children" by (auto simp add: e)
    with ch(2) have "hasSplit (children ! (j - length (positions s)))" by simp
    with j lt ch show "hasSplit (positions s1 ! j)"
      by (simp add: e nth_list_update nth_append)
  qed
  from b old new ch splitCube_effect(3-10) [OF sp] show ?thesis
    by (simp add: grows_def e)
next
  assume "\<not> b \<and> (\<exists>ds. length ds = length (directions s) \<and> s1 = s\<lparr>directions := ds\<rparr>)"
  then show ?thesis by (auto simp add: grows_def)
qed


lemma grows_trans:
  assumes "grows s s1 n" and "grows s1 s2 m"
  shows "grows s s2 (n + m)"
proof -
  have old: "\<forall>j < length (positions s). hasSplit (positions s ! j) \<longrightarrow> hasSplit (positions s2 ! j)"
    using assms by (auto simp add: grows_def)
  have new: "\<forall>j. length (positions s) \<le> j \<and> j < length (positions s2) \<longrightarrow> hasSplit (positions s2 ! j)"
  proof (intro allI impI)
    fix j assume j: "length (positions s) \<le> j \<and> j < length (positions s2)"
    show "hasSplit (positions s2 ! j)"
    proof (cases "j < length (positions s1)")
      case True
      with j assms(1) have "hasSplit (positions s1 ! j)" by (simp add: grows_def)
      with True assms(2) show ?thesis by (simp add: grows_def)
    next
      case False
      with j assms(2) show ?thesis by (simp add: grows_def)
    qed
  qed
  from assms old new show ?thesis
    by (simp add: grows_def)
qed

lemma grows_same:
  assumes "map hasSplit (positions s1) = map hasSplit (positions s)"
    and "length (angles s1) = length (angles s)" and "length (speeds s1) = length (speeds s)"
    and "length (colors s1) = length (colors s)" and "length (directions s1) = length (directions s)"
    and "boundary s1 = boundary s" and "spatialGrid s1 = spatialGrid s"
    and "animationPaused s1 = animationPaused s" and "randoms s1 = randoms s"
  shows "grows s s1 0"
proof -
  from assms(1) have l: "length (positions s1) = length (positions s)"
    by (metis length_map)
  have "\<forall>j < length (positions s). hasSplit (positions s1 ! j) = hasSplit (positions s ! j)"
  proof (intro allI impI)
    fix j assume "j < length (positions s)"
    with l have "map hasSplit (positions s1) ! j = hasSplit (positions s1 ! j)"
      "map hasSplit (positions s) ! j = hasSplit (positions s ! j)" by simp_all
    with assms(1) show "hasSplit (positions s1 ! j) = hasSplit (positions s ! j)" by simp
  qed
  with l assms(2-) show ?thesis by (auto simp add: grows_def)
qed

lemma renderCube_grows:
  assumes "renderCube i s = Inr s1"
  shows "grows s s1 0 \<or> (i < length (positions s) \<and> \<not> hasSplit (positions s ! i) \<and> grows s s1 8)"
proof -
  let ?u = "updateColorTransition (colors s ! i) s"
  let ?s2 = "(snd ?u)\<lparr>colors := (colors (snd ?u))[i := fst ?u]\<rparr>"
  from assms obtain b s3 where c: "checkCollisions i ?s2 = Inr (b, s3)"
    and e: "s1 = boundaryBounce i (integrate i s3)" and v: "valid s i"
    by (auto simp add: renderCube_def Let_def split_beta split: if_splits sum.splits)
  have g1: "grows s ?s2 0"
    by (rule grows_same) (simp_all add: uct_frame)
  have g2: "grows ?s2 s3 (if b then 8 else 0)"
    using c by (rule checkCollisions_grows)
  have g3: "grows s3 s1 0"
    unfolding e
    by (rule grows_same) (simp_all add: boundaryBounce_frame integrate_simps(1,3-) integrate_flags)
  from grows_trans [OF grows_trans [OF g1 g2] g3] have g: "grows s s1 (if b then 8 else 0)"
    by simp
  show ?thesis
  proof (cases b)
    case False
    with g show ?thesis by simp
  next
    case True
    with checkCollisions_cases [OF c] have "\<not> hasSplit (positions ?s2 ! i)" by blast
    then have "\<not> hasSplit (positions s ! i)" by (simp add: uct_frame)
    with g True v show ?thesis by (simp add: valid_def)
  qed
qed

lemma checkCandidates_total:
  assumes "valid s ci" and "\<forall>j \<in> set cands. j < length (positions s)"
  shows "\<exists>b s1. checkCandidates ci cands s = Inr (b, s1)"
  using assms
proof (induction cands arbitrary: s)
  case Nil
  show ?case by auto
next
  case (Cons i rest)
  from Cons.prems have i: "i < length (positions s)" and ci: "ci < length (directions s)"
    by (simp_all add: valid_def)
  show ?case
  proof (cases "collision (positions s ! ci) (positions s ! i)")
    case False
    from Cons.prems have "valid s ci" "\<forall>j \<in> set rest. j < length (positions s)"
      by simp_all
    from Cons.IH [OF this] False i show ?thesis
      by (simp add: Let_def)
  next
    case True
    note col = this
    show ?thesis
    proof (cases "hasSplit (positions s ! ci)")
      case False
      from Cons.prems(1) obtain s2 where "splitCube ci s = Inr s2"
        by (simp add: splitCube_def)
      with False col i show ?thesis
        by (auto simp add: Let_def)
    next
      case True
      let ?s = "s\<lparr>directions := (directions s)
                   [ci := \<lparr>dx = dx (directions s ! ci) * (- 1), dy = dy (directions s ! ci) * (- 1),
                           dz = dz (directions s ! ci) * (- 1)\<rparr>]\<rparr>"
      from Cons.prems have "valid ?s ci" "\<forall>j \<in> set rest. j < length (positions ?s)"
        by (simp_all add: valid_def)
      from Cons.IH [OF this] obtain b1 t1 where "checkCandidates ci rest ?s = Inr (b1, t1)"
        by blast
      with True col i ci show ?thesis
        by (simp add: Let_def)
    qed
  qed
qed

lemma checkCollisions_total:
  assumes "valid s ci" and "gridIndicesValid s"
  shows "\<exists>b s1. checkCollisions ci s = Inr (b, s1)"
proof -
  from assms(1) have "ci < length (positions s)" by (simp add: valid_def)
  from getPotentialCollisions_set [OF this] obtain cands where
    c: "getPotentialCollisions ci s = Inr cands" by blast
  from candidates_valid [OF assms(2) c] assms(1) checkCandidates_total [of s ci cands] c
  show ?thesis by (simp add: checkCollisions_def)
qed

lemma renderCube_total:
  assumes "valid s i" and "gridIndicesValid s"
  shows "\<exists>s1. renderCube i s = Inr s1"
proof -
  let ?u = "updateColorTransition (colors s ! i) s"
  let ?s2 = "(snd ?u)\<lparr>colors := (colors (snd ?u))[i := fst ?u]\<rparr>"
  from assms have "valid ?s2 i" "gridIndicesValid ?s2"
    by (simp_all add: valid_def gridIndicesValid_def uct_frame)
  from checkCollisions_total [OF this] assms(1) show ?thesis
    by (auto simp add: renderCube_def Let_def split_beta)
qed

lemma grows_aligned: "grows s s1 n \<Longrightarrow> aligned s \<Longrightarrow> aligned s1"
  by (simp add: grows_def aligned_def)

lemma grows_gridIndicesValid:
  assumes "grows s s1 n" and "gridIndicesValid s"
  shows "gridIndicesValid s1"
proof -
  from assms(1) have "spatialGrid s1 = spatialGrid s" "length (positions s) \<le> length (positions s1)"
    by (simp_all add: grows_def)
  with assms(2) show ?thesis
    by (fastforce simp add: gridIndicesValid_def)
qed

lemma aligned_valid: "aligned s \<Longrightarrow> i < length (positions s) \<Longrightarrow> valid s i"
  by (simp add: aligned_def valid_def)

lemma renderLoop_done: "\<not> i < length (positions s) \<Longrightarrow> renderLoop i s = Inr s"
  by (subst renderLoop.simps) simp

lemma renderLoop_step:
  "i < length (positions s) \<Longrightarrow> renderCube i s = Inr s1 \<Longrightarrow> renderLoop i s = renderLoop (Suc i) s1"
  by (subst renderLoop.simps) simp

lemma renderLoop_fail:
  "i < length (positions s) \<Longrightarrow> renderCube i s = Inl e \<Longrightarrow> renderLoop i s = Inl e"
  by (subst renderLoop.simps) simp

lemma renderLoop_total:
  assumes "aligned s" and "gridIndicesValid s"
  shows "\<exists>s1. renderLoop i s = Inr s1"
  using assms
proof (induction i s rule: renderLoop.induct)
  case (1 i s)
  show ?case
  proof (cases "i < length (positions s)")
    case False
    then show ?thesis by (simp add: renderLoop_done)
  next
    case True
    from renderCube_total [OF aligned_valid [OF "1.prems"(1) True] "1.prems"(2)]
    obtain s1 where r: "renderCube i s = Inr s1" by blast
    from renderCube_grows [OF r] obtain n where g: "grows s s1 n" by blast
    from "1.IH" [OF True r grows_aligned [OF g "1.prems"(1)] grows_gridIndicesValid [OF g "1.prems"(2)]]
    obtain s2 where "renderLoop (Suc i) s1 = Inr s2" by blast
    with True r show ?thesis by (simp add: renderLoop_step)
  qed
qed

lemma renderLoop_grows:
  assumes "renderLoop i s = Inr s2"
  shows "\<exists>n. grows s s2 n"
  using assms
proof (induction i s rule: renderLoop.induct)
  case (1 i s)
  show ?case
  proof (cases "i < length (positions s)")
    case False
    with "1.prems" have "s2 = s" by (simp add: renderLoop_done)
    then have "grows s s2 0" by (auto simp add: grows_def)
    then show ?thesis by blast
  next
    case True
    show ?thesis
    proof (cases "renderCube i s")
      case (Inl e)
      with True "1.prems" show ?thesis by (simp add: renderLoop_fail)
    next
      case (Inr s1)
      with True "1.prems" have l: "renderLoop (Suc i) s1 = Inr s2"
        by (simp add: renderLoop_step)
      from renderCube_grows [OF Inr] obtain n where g: "grows s s1 n" by blast
      from "1.IH" [OF True Inr l] obtain m where "grows s1 s2 m" by blast
      from grows_trans [OF g this] show ?thesis by blast
    qed
  qed
qed


section \<open>The rebuilt grid\<close>

lemma updateGrid_frame:
  "positions (updateGrid s) = positions s"
  "angles (updateGrid s) = angles s"
  "speeds (updateGrid s) = speeds s"
  "colors (updateGrid s) = colors s"
  "directions (updateGrid s) = directions s"
  "boundary (updateGrid s) = boundary s"
  "animationPaused (updateGrid s) = animationPaused s"
  "randoms (updateGrid s) = randoms s"
  "drawn (updateGrid s) = drawn s"
  "rounding (updateGrid s) = rounding s"
  "cellSize (spatialGrid (updateGrid s)) = cellSize (spatialGrid s)"
  "gridSize (spatialGrid (updateGrid s)) = gridSize (spatialGrid s)"
  by (simp_all add: updateGrid_def Let_def)

lemma insertPositions_length:
  "length (insertPositions fl b g ps index cells) = length cells"
  by (induction ps arbitrary: index cells) (simp_all add: Let_def)

lemma insertPositions_mem:
  "k < length cells \<Longrightarrow>
   j \<in> set (insertPositions fl b g ps index cells ! k) \<longleftrightarrow>
     j \<in> set (cells ! k) \<or>
     (index \<le> j \<and> j < index + length ps \<and>
      getGridIndex fl b g (x (ps ! (j - index))) (y (ps ! (j - index))) (z (ps ! (j - index))) = int k)"
proof (induction ps arbitrary: index cells)
  case Nil
  then show ?case by auto
next
  case (Cons pos ps)
  let ?gi = "getGridIndex fl b g (x pos) (y pos) (z pos)"
  let ?cells = "if 0 \<le> ?gi \<and> ?gi < int (length cells)
            then cells[nat ?gi := cells ! nat ?gi @ [index]] else cells"
  have len: "k < length ?cells" using Cons.prems by simp
  have here: "j \<in> set (?cells ! k) \<longleftrightarrow> j \<in> set (cells ! k) \<or> (j = index \<and> ?gi = int k)"
    using Cons.prems by (auto simp add: nth_list_update split: if_splits)
  have later: "Suc index \<le> j \<Longrightarrow> (pos # ps) ! (j - index) = ps ! (j - Suc index)"
    by (simp add: nth_Cons' Suc_diff_le)
  have "j \<in> set (insertPositions fl b g (pos # ps) index cells ! k) \<longleftrightarrow>
        j \<in> set (insertPositions fl b g ps (Suc index) ?cells ! k)"
    by (simp add: Let_def)
  also have "\<dots> \<longleftrightarrow> j \<in> set (?cells ! k) \<or>
     (Suc index \<le> j \<and> j < Suc index + length ps \<and>
      getGridIndex fl b g (x (ps ! (j - Suc index))) (y (ps ! (j - Suc index))) (z (ps ! (j - Suc index))) = int k)"
    by (rule Cons.IH [OF len])
  also have "\<dots> \<longleftrightarrow> j \<in> set (cells ! k) \<or>
     (index \<le> j \<and> j < index + length (pos # ps) \<and>
      getGridIndex fl b g (x ((pos # ps) ! (j - index))) (y ((pos # ps) ! (j - index)))
        (z ((pos # ps) ! (j - index))) = int k)"
  proof (cases "j = index")
    case True
    then show ?thesis unfolding here by auto
  next
    case False
    show ?thesis
    proof (cases "Suc index \<le> j")
      case True
      with False later [OF True] show ?thesis unfolding here by auto
    next
      case False
      with \<open>j \<noteq> index\<close> show ?thesis unfolding here by auto
    qed
  qed
  finally show ?case .
qed

text \<open>After updateGrid, a cell holds exactly the entities whose flattened index is its own.\<close>

lemma updateGrid_mem:
  assumes "k < length (grid (spatialGrid s))"
  shows "j \<in> set (grid (spatialGrid (updateGrid s)) ! k) \<longleftrightarrow>
     j < length (positions s) \<and>
     getGridIndex (rounding s) (boundary s) (spatialGrid s) (x (positions s ! j)) (y (positions s ! j))
       (z (positions s ! j)) = int k"
  using assms insertPositions_mem [of k "map (\<lambda>cell. []) (grid (spatialGrid s))" j "rounding s" "boundary s"
      "spatialGrid s" "positions s" 0]
  by (simp add: updateGrid_def Let_def)

lemma updateGrid_length:
  "length (grid (spatialGrid (updateGrid s))) = length (grid (spatialGrid s))"
  by (simp add: updateGrid_def Let_def insertPositions_length)

lemma updateGrid_valid: "gridIndicesValid (updateGrid s)"
  unfolding gridIndicesValid_def
proof (intro ballI)
  fix cell j
  assume "cell \<in> set (grid (spatialGrid (updateGrid s)))" and j: "j \<in> set cell"
  then obtain k where "k < length (grid (spatialGrid (updateGrid s)))"
    and "cell = grid (spatialGrid (updateGrid s)) ! k"
    by (auto simp add: in_set_conv_nth)
  with j updateGrid_mem [of k s j] show "j < length (positions (updateGrid s))"
    by (simp add: updateGrid_length updateGrid_frame)
qed

lemma updateGrid_aligned: "aligned (updateGrid s) = aligned s"
  by (simp add: aligned_def updateGrid_frame)


section \<open>Frames and runs\<close>

lemma splitsKept_same: "positions s1 = positions s \<Longrightarrow> splitsKept s s1"
  by (auto simp add: splitsKept_def)

lemma grows_splitsKept: "grows s s1 n \<Longrightarrow> splitsKept s s1"
  by (auto simp add: grows_def splitsKept_def)

lemma splitsKept_trans:
  assumes "splitsKept s s1" and "splitsKept s1 s2"
  shows "splitsKept s s2"
proof -
  have "\<forall>j. length (positions s) \<le> j \<and> j < length (positions s2) \<longrightarrow> hasSplit (positions s2 ! j)"
  proof (intro allI impI)
    fix j assume j: "length (positions s) \<le> j \<and> j < length (positions s2)"
    show "hasSplit (positions s2 ! j)"
    proof (cases "j < length (positions s1)")
      case True
      with j assms(1) have "hasSplit (positions s1 ! j)" by (simp add: splitsKept_def)
      with True assms(2) show ?thesis by (simp add: splitsKept_def)
    next
      case False
      with j assms(2) show ?thesis by (simp add: splitsKept_def)
    qed
  qed
  with assms show ?thesis by (auto simp add: splitsKept_def)
qed

lemma render_cases:
  assumes "render s = Inr s1"
  shows "s1 = s \<or> (\<exists>n. grows (updateGrid s) s1 n)"
proof (cases "animationPaused s")
  case True
  with assms show ?thesis by (simp add: render_def)
next
  case False
  with assms have "renderLoop 0 (updateGrid s) = Inr s1" by (simp add: render_def)
  from renderLoop_grows [OF this] show ?thesis by blast
qed

lemma render_splitsKept:
  assumes "render s = Inr s1"
  shows "splitsKept s s1"
  using render_cases [OF assms]
proof
  assume "s1 = s" then show ?thesis by (simp add: splitsKept_same)
next
  assume "\<exists>n. grows (updateGrid s) s1 n"
  then obtain n where "grows (updateGrid s) s1 n" by blast
  from grows_splitsKept [OF this] show ?thesis
    by (simp add: splitsKept_def updateGrid_frame)
qed

lemma render_aligned:
  assumes "render s = Inr s1" and "aligned s"
  shows "aligned s1"
  using render_cases [OF assms(1)]
proof
  assume "s1 = s" with assms(2) show ?thesis by simp
next
  assume "\<exists>n. grows (updateGrid s) s1 n"
  then obtain n where "grows (updateGrid s) s1 n" by blast
  from grows_aligned [OF this] assms(2) show ?thesis
    by (simp add: updateGrid_aligned)
qed

lemma render_total:
  assumes "aligned s"
  shows "\<exists>s1. render s = Inr s1"
proof (cases "animationPaused s")
  case True
  then show ?thesis by (simp add: render_def)
next
  case False
  from assms have "aligned (updateGrid s)" by (simp add: updateGrid_aligned)
  from renderLoop_total [OF this updateGrid_valid, of 0] False show ?thesis
    by (simp add: render_def)
qed

lemma colorSync_frame:
  "positions (colorSyncButton_onclick s) = positions s"
  "angles (colorSyncButton_onclick s) = angles s"
  "speeds (colorSyncButton_onclick s) = speeds s"
  "directions (colorSyncButton_onclick s) = directions s"
  "length (colors (colorSyncButton_onclick s)) = length (colors s)"
  by (simp_all add: colorSyncButton_onclick_def getRandomColor_eq split_beta syncColors_frame
      syncColors_length)

lemma splitCube_splitsKept:
  assumes "splitCube index s = Inr s1"
  shows "splitsKept s s1"
proof -
  from splitCube_effect(2) [OF assms] obtain children where
    "length children = 8" "\<forall>p \<in> set children. hasSplit p" "positions s1 = positions s @ children"
    by blast
  then show ?thesis
    by (auto simp add: splitsKept_def nth_append)
qed

lemma splitCube_aligned:
  assumes "splitCube index s = Inr s1" and "aligned s"
  shows "aligned s1"
proof -
  from splitCube_effect(2) [OF assms(1)] have "length (positions s1) = length (positions s) + 8"
    by auto
  with splitCube_effect(3-6) [OF assms(1)] assms(2) show ?thesis
    by (simp add: aligned_def)
qed

lemma perform_splitsKept:
  assumes "perform op s = Inr s1"
  shows "splitsKept s s1"
proof (cases op)
  case Frame
  with assms show ?thesis by (simp add: render_splitsKept)
next
  case ColorSync
  with assms show ?thesis by (auto simp add: splitsKept_same colorSync_frame)
next
  case PlayPause
  show ?thesis
  proof (cases "animationPaused s")
    case True
    with PlayPause assms have "render (s\<lparr>animationPaused := False\<rparr>) = Inr s1"
      by (simp add: playPauseButton_onclick_def)
    from render_splitsKept [OF this] show ?thesis by (simp add: splitsKept_def)
  next
    case False
    with PlayPause assms show ?thesis
      by (auto simp add: playPauseButton_onclick_def splitsKept_same)
  qed
next
  case (Split index)
  with assms show ?thesis by (simp add: splitCube_splitsKept)
qed

lemma perform_aligned:
  assumes "perform op s = Inr s1" and "aligned s"
  shows "aligned s1"
proof (cases op)
  case Frame
  with assms show ?thesis by (simp add: render_aligned)
next
  case ColorSync
  with assms show ?thesis by (auto simp add: aligned_def colorSync_frame)
next
  case PlayPause
  show ?thesis
  proof (cases "animationPaused s")
    case True
    with PlayPause assms have r: "render (s\<lparr>animationPaused := False\<rparr>) = Inr s1"
      by (simp add: playPauseButton_onclick_def)
    from assms(2) have "aligned (s\<lparr>animationPaused := False\<rparr>)" by (simp add: aligned_def)
    from render_aligned [OF r this] show ?thesis .
  next
    case False
    with PlayPause assms show ?thesis
      by (auto simp add: playPauseButton_onclick_def aligned_def)
  qed
next
  case (Split index)
  with assms show ?thesis by (simp add: splitCube_aligned)
qed

lemma run_splitsKept: "run ops s = Inr s1 \<Longrightarrow> splitsKept s s1"
proof (induction ops arbitrary: s)
  case Nil
  then show ?case by (simp add: splitsKept_same)
next
  case (Cons op ops)
  then obtain s2 where p: "perform op s = Inr s2" and r: "run ops s2 = Inr s1"
    by (auto split: sum.splits)
  from splitsKept_trans [OF perform_splitsKept [OF p] Cons.IH [OF r]] show ?case .
qed

lemma run_aligned: "run ops s = Inr s1 \<Longrightarrow> aligned s \<Longrightarrow> aligned s1"
proof (induction ops arbitrary: s)
  case Nil
  then show ?case by simp
next
  case (Cons op ops)
  then obtain s2 where p: "perform op s = Inr s2" and r: "run ops s2 = Inr s1"
    by (auto split: sum.splits)
  from Cons.IH [OF r perform_aligned [OF p Cons.prems(2)]] show ?case .
qed


lemma unsplit_flags: "unsplit s = length (filter Not (map hasSplit (positions s)))"
  by (simp add: unsplit_def filter_map comp_def)

lemma count_update_True:
  assumes "i < length fl" and "\<not> fl ! i"
  shows "Suc (length (filter Not (fl[i := True]))) = length (filter Not fl)"
proof -
  have "fl = take i fl @ fl ! i # drop (Suc i) fl"
    using assms(1) by (rule id_take_nth_drop)
  then have "length (filter Not fl) = length (filter Not (take i fl @ fl ! i # drop (Suc i) fl))"
    by simp
  moreover have "fl[i := True] = take i fl @ True # drop (Suc i) fl"
    using assms(1) by (rule upd_conv_take_nth_drop)
  ultimately show ?thesis using assms(2) by simp
qed

lemma renderCube_potential:
  assumes "renderCube i s = Inr s1"
  shows "length (positions s1) + 8 * unsplit s1 = length (positions s) + 8 * unsplit s"
  using renderCube_flags [OF assms]
proof
  assume a: "map hasSplit (positions s1) = map hasSplit (positions s)"
  then have "length (positions s1) = length (positions s)" by (metis length_map)
  with a show ?thesis by (simp add: unsplit_flags)
next
  let ?fl = "map hasSplit (positions s)"
  assume a: "i < length (positions s) \<and> \<not> hasSplit (positions s ! i) \<and>
      map hasSplit (positions s1) = (?fl @ replicate 8 True)[i := True]"
  then have "length (map hasSplit (positions s1)) = length (positions s) + 8" by simp
  then have len: "length (positions s1) = length (positions s) + 8" by simp
  from a have "i < length (?fl @ replicate 8 True)" "\<not> (?fl @ replicate 8 True) ! i"
    by (simp_all add: nth_append)
  from count_update_True [OF this] a
  have "Suc (unsplit s1) = unsplit s"
    by (simp add: unsplit_flags)
  with len show ?thesis by simp
qed

lemma renderLoop_potential:
  assumes "renderLoop i s = Inr s2"
  shows "length (positions s2) + 8 * unsplit s2 = length (positions s) + 8 * unsplit s"
  using assms
proof (induction i s rule: renderLoop.induct)
  case (1 i s)
  show ?case
  proof (cases "i < length (positions s)")
    case False
    with "1.prems" show ?thesis by (simp add: renderLoop_done)
  next
    case True
    show ?thesis
    proof (cases "renderCube i s")
      case (Inl e)
      with True "1.prems" show ?thesis by (simp add: renderLoop_fail)
    next
      case (Inr s1)
      with True "1.prems" have l: "renderLoop (Suc i) s1 = Inr s2"
        by (simp add: renderLoop_step)
      from "1.IH" [OF True Inr l] renderCube_potential [OF Inr] show ?thesis by simp
    qed
  qed
qed

lemma render_potential:
  assumes "render s = Inr s1"
  shows "length (positions s1) + 8 * unsplit s1 = length (positions s) + 8 * unsplit s"
proof (cases "animationPaused s")
  case True
  with assms show ?thesis by (simp add: render_def)
next
  case False
  with assms have "renderLoop 0 (updateGrid s) = Inr s1" by (simp add: render_def)
  from renderLoop_potential [OF this] show ?thesis
    by (simp add: unsplit_def updateGrid_frame)
qed

lemma perform_potential:
  assumes "perform op s = Inr s1" and "\<forall>index. op \<noteq> Split index"
  shows "length (positions s1) + 8 * unsplit s1 = length (positions s) + 8 * unsplit s"
proof (cases op)
  case Frame
  with assms show ?thesis by (simp add: render_potential)
next
  case ColorSync
  with assms show ?thesis by (auto simp add: unsplit_def colorSync_frame)
next
  case PlayPause
  show ?thesis
  proof (cases "animationPaused s")
    case True
    with PlayPause assms have "render (s\<lparr>animationPaused := False\<rparr>) = Inr s1"
      by (simp add: playPauseButton_onclick_def)
    from render_potential [OF this] show ?thesis by (simp add: unsplit_def)
  next
    case False
    with PlayPause assms show ?thesis
      by (auto simp add: playPauseButton_onclick_def unsplit_def)
  qed
next
  case (Split index)
  with assms show ?thesis by simp
qed

lemma run_potential:
  assumes "run ops s = Inr s1" and "\<forall>index. Split index \<notin> set ops"
  shows "length (positions s1) + 8 * unsplit s1 = length (positions s) + 8 * unsplit s"
  using assms
proof (induction ops arbitrary: s)
  case Nil
  then show ?case by simp
next
  case (Cons op ops)
  then obtain s2 where p: "perform op s = Inr s2" and r: "run ops s2 = Inr s1"
    by (auto split: sum.splits)
  from Cons.prems(2) have "\<forall>index. op \<noteq> Split index" "\<forall>index. Split index \<notin> set ops"
    by auto
  with perform_potential [OF p] Cons.IH [OF r] show ?case by simp
qed

lemma checkCollisions_hasSplit:
  assumes "hasSplit (positions s ! i)" and "checkCollisions i s = Inr (b, s1)"
  shows "\<not> b \<and> grows s s1 0"
proof -
  from checkCollisions_cases [OF assms(2)] assms(1) have "\<not> b" by blast
  with checkCollisions_grows [OF assms(2)] show ?thesis by simp
qed

lemma run_total:
  assumes "aligned s" and "\<forall>index. Split index \<in> set ops \<longrightarrow> index < length (positions s)"
  shows "\<exists>s1. run ops s = Inr s1"
  using assms
proof (induction ops arbitrary: s)
  case Nil
  then show ?case by simp
next
  case (Cons op ops)
  have "\<exists>s2. perform op s = Inr s2"
  proof (cases op)
    case Frame
    with render_total [OF Cons.prems(1)] show ?thesis by simp
  next
    case ColorSync
    then show ?thesis by simp
  next
    case PlayPause
    from Cons.prems(1) have "aligned (s\<lparr>animationPaused := False\<rparr>)" by (simp add: aligned_def)
    from render_total [OF this] PlayPause show ?thesis
      by (cases "animationPaused s") (auto simp add: playPauseButton_onclick_def Let_def)
  next
    case (Split index)
    with Cons.prems have "valid s index" by (simp add: aligned_valid)
    with Split show ?thesis by (simp add: splitCube_def)
  qed
  then obtain s2 where p: "perform op s = Inr s2" by blast
  from perform_splitsKept [OF p] have "length (positions s) \<le> length (positions s2)"
    by (simp add: splitsKept_def)
  with Cons.prems(2) have "\<forall>index. Split index \<in> set ops \<longrightarrow> index < length (positions s2)"
    by fastforce
  from Cons.IH [OF perform_aligned [OF p Cons.prems(1)] this] p show ?case by simp
qed

lemma exampleWorld_aligned: "aligned exampleWorld"
  by (simp add: aligned_def exampleWorld_def)

lemma bounceWorld_aligned: "aligned bounceWorld"
  by (simp add: aligned_def bounceWorld_def exampleWorld_def)


section \<open>The split flag\<close>

text \<open>
  Claim C4. In every run of operations (frames, controls, calls of \<open>splitCube\<close>) no entity
  disappears, a split flag that is set stays set, and every entity the run adds is flagged
  as split from its creation. In a run of frames and controls, the population plus eight
  times the number of unsplit entities is constant: every eight new entities are paid for
  by one entity that goes from unsplit to split for good, so no entity splits twice and a
  child never splits. And for an entity whose flag is set, \<open>checkCollisions\<close> returns
  \<open>false\<close> and appends nothing to any array, whatever the candidates are.
\<close>

theorem C4_hasSplit_monotonic:
  "(run ops s = Inr s1 \<longrightarrow>
      length (positions s) \<le> length (positions s1) \<and>
      (\<forall>j < length (positions s). hasSplit (positions s ! j) \<longrightarrow> hasSplit (positions s1 ! j)) \<and>
      (\<forall>j. length (positions s) \<le> j \<and> j < length (positions s1) \<longrightarrow> hasSplit (positions s1 ! j))) \<and>
   (run ops s = Inr s1 \<and> (\<forall>index. Split index \<notin> set ops) \<longrightarrow>
      length (positions s1) + 8 * unsplit s1 = length (positions s) + 8 * unsplit s) \<and>
   (hasSplit (positions s ! i) \<and> checkCollisions i s = Inr (b, s2) \<longrightarrow>
      \<not> b \<and> positions s2 = positions s \<and> length (angles s2) = length (angles s) \<and>
      length (speeds s2) = length (speeds s) \<and> length (colors s2) = length (colors s) \<and>
      length (directions s2) = length (directions s))"
proof (intro conjI impI)
  assume "run ops s = Inr s1"
  from run_splitsKept [OF this]
  show "length (positions s) \<le> length (positions s1)"
    and "\<forall>j < length (positions s). hasSplit (positions s ! j) \<longrightarrow> hasSplit (positions s1 ! j)"
    and "\<forall>j. length (positions s) \<le> j \<and> j < length (positions s1) \<longrightarrow> hasSplit (positions s1 ! j)"
    by (simp_all add: splitsKept_def)
next
  assume "run ops s = Inr s1 \<and> (\<forall>index. Split index \<notin> set ops)"
  then show "length (positions s1) + 8 * unsplit s1 = length (positions s) + 8 * unsplit s"
    using run_potential [of ops s s1] by blast
next
  assume a: "hasSplit (positions s ! i) \<and> checkCollisions i s = Inr (b, s2)"
  then have b: "\<not> b" using checkCollisions_hasSplit by blast
  from a checkCollisions_cases [of i s b s2] b
  obtain ds where "length ds = length (directions s)" "s2 = s\<lparr>directions := ds\<rparr>" by blast
  with b show "\<not> b" "positions s2 = positions s" "length (angles s2) = length (angles s)"
    "length (speeds s2) = length (speeds s)" "length (colors s2) = length (colors s)"
    "length (directions s2) = length (directions s)"
    by simp_all
qed


theorem C4_hasSplit_monotonic_witness:
  "hasSplit (positions bounceWorld ! 0) \<and>
   (\<exists>s1. run [Frame] bounceWorld = Inr s1 \<and> hasSplit (positions s1 ! 0) \<and>
      length (positions s1) + 8 * unsplit s1 = 10) \<and>
   (\<exists>s2. checkCollisions 0 bounceWorld = Inr (False, s2) \<and>
      positions s2 = positions bounceWorld)"
proof -
  have h: "hasSplit (positions bounceWorld ! 0)" "0 < length (positions bounceWorld)"
    by (simp_all add: bounceWorld_def exampleWorld_def)
  have u: "length (positions bounceWorld) + 8 * unsplit bounceWorld = 10"
    by (simp add: unsplit_def bounceWorld_def exampleWorld_def)
  from run_total [OF bounceWorld_aligned, of "[Frame]"] obtain s1 where
    r: "run [Frame] bounceWorld = Inr s1" by auto
  have v: "valid bounceWorld 0" "gridIndicesValid bounceWorld"
    by (simp_all add: valid_def gridIndicesValid_def bounceWorld_def exampleWorld_def)
  from checkCollisions_total [OF v] obtain b s2 where
    c: "checkCollisions 0 bounceWorld = Inr (b, s2)" by blast
  from C4_hasSplit_monotonic [of "[Frame]" bounceWorld s1 0 b s2] r h c u
  have "hasSplit (positions s1 ! 0)" "length (positions s1) + 8 * unsplit s1 = 10"
    "\<not> b" "positions s2 = positions bounceWorld"
    by auto
  with h r c show ?thesis by auto
qed


section \<open>Alignment of the arrays\<close>

text \<open>
  Claim C10. For a usable parent index \<open>splitCube\<close> returns and appends exactly eight
  entries to each of \<open>positions\<close>, \<open>angles\<close>, \<open>speeds\<close>, \<open>colors\<close> and \<open>directions\<close>. When
  the five arrays have one length, they have one length after every run of operations
  that returns; and the run does return when the parents of its direct \<open>splitCube\<close> calls
  are indices of the first world.
\<close>

theorem C10_alignment:
  "(valid s index \<longrightarrow>
      (\<exists>s1. splitCube index s = Inr s1 \<and>
         length (positions s1) = length (positions s) + 8 \<and>
         length (angles s1) = length (angles s) + 8 \<and>
         length (speeds s1) = length (speeds s) + 8 \<and>
         length (colors s1) = length (colors s) + 8 \<and>
         length (directions s1) = length (directions s) + 8)) \<and>
   (aligned s \<and> run ops s = Inr s2 \<longrightarrow> aligned s2) \<and>
   (aligned s \<and> (\<forall>index. Split index \<in> set ops \<longrightarrow> index < length (positions s)) \<longrightarrow>
      (\<exists>s3. run ops s = Inr s3 \<and> aligned s3))"
proof (intro conjI impI)
  assume "valid s index"
  then obtain s1 where sp: "splitCube index s = Inr s1"
    by (simp add: splitCube_def)
  from splitCube_effect(2) [OF sp] have "length (positions s1) = length (positions s) + 8"
    by auto
  with sp splitCube_effect(3-6) [OF sp]
  show "\<exists>s1. splitCube index s = Inr s1 \<and>
         length (positions s1) = length (positions s) + 8 \<and>
         length (angles s1) = length (angles s) + 8 \<and>
         length (speeds s1) = length (speeds s) + 8 \<and>
         length (colors s1) = length (colors s) + 8 \<and>
         length (directions s1) = length (directions s) + 8"
    by blast
next
  assume "aligned s \<and> run ops s = Inr s2"
  then show "aligned s2" using run_aligned by blast
next
  assume a: "aligned s \<and> (\<forall>index. Split index \<in> set ops \<longrightarrow> index < length (positions s))"
  then obtain s3 where "run ops s = Inr s3" using run_total by blast
  with a run_aligned show "\<exists>s3. run ops s = Inr s3 \<and> aligned s3" by blast
qed



theorem C10_alignment_witness:
  "valid exampleWorld 0 \<and> aligned exampleWorld \<and>
   (\<exists>s1. splitCube 0 exampleWorld = Inr s1 \<and> length (positions s1) = 10 \<and>
      length (angles s1) = 10 \<and> length (speeds s1) = 10 \<and> length (colors s1) = 10 \<and>
      length (directions s1) = 10) \<and>
   (\<exists>s3. run [Frame, Split 0, ColorSync, Frame] exampleWorld = Inr s3 \<and> aligned s3)"
proof -
  have v: "valid exampleWorld 0"
    by (simp add: valid_def exampleWorld_def)
  have l: "length (positions exampleWorld) = 2" "length (angles exampleWorld) = 2"
    "length (speeds exampleWorld) = 2" "length (colors exampleWorld) = 2"
    "length (directions exampleWorld) = 2"
    by (simp_all add: exampleWorld_def)
  have i: "\<forall>index. Split index \<in> set [Frame, Split 0, ColorSync, Frame] \<longrightarrow>
      index < length (positions exampleWorld)"
    by (simp add: l)
  from C10_alignment [of exampleWorld 0 "[Frame, Split 0, ColorSync, Frame]"] v exampleWorld_aligned i
  show ?thesis unfolding l by auto
qed


section \<open>Children are visited in the frame that creates them\<close>

lemma splitCube_colors:
  assumes "splitCube ci s = Inr s2"
  shows "\<exists>cs. (\<forall>c \<in> set cs. step c = 0) \<and> colors s2 = colors s @ cs"
proof -
  from assms have v: "valid s ci" and e: "s2 = foldl (splitChild ci (positions s ! ci)) s [0..<8]"
    by (simp_all add: splitCube_def split: if_splits)
  from v have "ci < length (colors s)" by (simp add: valid_def)
  from split_colors [OF this, of "positions s ! ci" "[0..<8]"] show ?thesis
    unfolding e by auto
qed

lemma checkCollisions_colors:
  assumes "checkCollisions ci s = Inr (b, s1)"
  shows "\<exists>cs. (\<forall>c \<in> set cs. step c = 0) \<and> colors s1 = colors s @ cs"
  using checkCollisions_cases [OF assms]
proof
  assume "b \<and> \<not> hasSplit (positions s ! ci) \<and>
          (\<exists>s2. splitCube ci s = Inr s2 \<and>
             s1 = s2\<lparr>positions := (positions s2)[ci := (positions s2 ! ci)\<lparr>hasSplit := True\<rparr>]\<rparr>)"
  then obtain s2 where "splitCube ci s = Inr s2"
    and "s1 = s2\<lparr>positions := (positions s2)[ci := (positions s2 ! ci)\<lparr>hasSplit := True\<rparr>]\<rparr>"
    by blast
  with splitCube_colors [of ci s s2] show ?thesis by simp
next
  assume "\<not> b \<and> (\<exists>ds. length ds = length (directions s) \<and> s1 = s\<lparr>directions := ds\<rparr>)"
  then have "colors s1 = colors s @ []" by auto
  then show ?thesis by (metis empty_iff empty_set)
qed

lemma renderCube_colors:
  assumes "renderCube i s = Inr s1"
  shows "\<exists>cs. (\<forall>c \<in> set cs. step c = 0) \<and>
     colors s1 = (colors s)[i := fst (updateColorTransition (colors s ! i) s)] @ cs"
proof -
  let ?u = "updateColorTransition (colors s ! i) s"
  let ?s2 = "(snd ?u)\<lparr>colors := (colors (snd ?u))[i := fst ?u]\<rparr>"
  from assms obtain b s3 where c: "checkCollisions i ?s2 = Inr (b, s3)"
    and e: "s1 = boundaryBounce i (integrate i s3)"
    by (auto simp add: renderCube_def Let_def split_beta split: if_splits sum.splits)
  from checkCollisions_colors [OF c] show ?thesis
    by (simp add: e boundaryBounce_frame integrate_simps uct_frame)
qed

lemma updateColorTransition_first_step:
  "step c = 0 \<Longrightarrow> step (fst (updateColorTransition c s)) = 0.005"
  by (simp add: updateColorTransition_def Let_def)

lemma renderLoop_child_steps:
  assumes "renderLoop i s = Inr s1" and "aligned s"
    and "\<forall>j. n0 \<le> j \<and> j < length (colors s) \<longrightarrow> step (colors s ! j) = (if j < i then 0.005 else 0)"
  shows "\<forall>j. n0 \<le> j \<and> j < length (colors s1) \<longrightarrow> step (colors s1 ! j) = 0.005"
  using assms
proof (induction i s rule: renderLoop.induct)
  case (1 i s)
  from "1.prems"(2) have al: "length (colors s) = length (positions s)"
    by (simp add: aligned_def)
  show ?case
  proof (cases "i < length (positions s)")
    case False
    with "1.prems"(1) have "s1 = s" by (simp add: renderLoop_done)
    with False al "1.prems"(3) show ?thesis by auto
  next
    case True
    show ?thesis
    proof (cases "renderCube i s")
      case (Inl e)
      with True "1.prems" show ?thesis by (simp add: renderLoop_fail)
    next
      case (Inr s2)
      with True "1.prems" have l: "renderLoop (Suc i) s2 = Inr s1"
        by (simp add: renderLoop_step)
      from renderCube_grows [OF Inr] obtain n where g: "grows s s2 n" by blast
      from renderCube_colors [OF Inr] obtain cs where
        cs: "\<forall>c \<in> set cs. step c = 0"
        and c2: "colors s2 = (colors s)[i := fst (updateColorTransition (colors s ! i) s)] @ cs"
        by blast
      have inv: "\<forall>j. n0 \<le> j \<and> j < length (colors s2) \<longrightarrow>
          step (colors s2 ! j) = (if j < Suc i then 0.005 else 0)"
      proof (intro allI impI)
        fix j assume j: "n0 \<le> j \<and> j < length (colors s2)"
        show "step (colors s2 ! j) = (if j < Suc i then 0.005 else 0)"
        proof (cases "j < length (colors s)")
          case False
          with j c2 have "j - length (colors s) < length cs" by auto
          with cs have "step (cs ! (j - length (colors s))) = 0" by simp
          with False True al show ?thesis by (simp add: c2 nth_append)
        next
          case inside: True
          show ?thesis
          proof (cases "j = i")
            case True
            with j inside "1.prems"(3) have "step (colors s ! i) = 0" by auto
            from updateColorTransition_first_step [OF this] True inside show ?thesis
              by (simp add: c2 nth_append)
          next
            case False
            with j inside "1.prems"(3) show ?thesis
              by (auto simp add: c2 nth_append)
          qed
        qed
      qed
      from "1.IH" [OF True Inr l grows_aligned [OF g "1.prems"(2)] inv] show ?thesis .
    qed
  qed
qed

lemma renderLoop_indices:
  assumes "renderLoop i s = Inr s1"
  shows "renderIndices [i..<length (positions s1)] s = Inr s1"
  using assms
proof (induction i s rule: renderLoop.induct)
  case (1 i s)
  show ?case
  proof (cases "i < length (positions s)")
    case False
    with "1.prems" show ?thesis by (simp add: renderLoop_done)
  next
    case True
    show ?thesis
    proof (cases "renderCube i s")
      case (Inl e)
      with True "1.prems" show ?thesis by (simp add: renderLoop_fail)
    next
      case (Inr s2)
      with True "1.prems" have l: "renderLoop (Suc i) s2 = Inr s1"
        by (simp add: renderLoop_step)
      from renderCube_grows [OF Inr] obtain n where "grows s s2 n" by blast
      moreover from renderLoop_grows [OF l] obtain m where "grows s2 s1 m" by blast
      ultimately have "i < length (positions s1)"
        using True by (simp add: grows_def)
      then have "[i..<length (positions s1)] = i # [Suc i..<length (positions s1)]"
        by (rule upt_conv_Cons)
      with "1.IH" [OF True Inr l] Inr show ?thesis by simp
    qed
  qed
qed



text \<open>The loop body for the index \<open>i\<close> leaves the entries of every other index alone.\<close>

lemma checkCandidates_bounce:
  assumes "checkCandidates ci cands s = Inr (False, s1)"
  shows "\<exists>d. s1 = s\<lparr>directions := (directions s)[ci := d]\<rparr>"
  using assms
proof (induction cands arbitrary: s)
  case Nil
  then have "s1 = s\<lparr>directions := (directions s)[ci := directions s ! ci]\<rparr>" by simp
  then show ?case by blast
next
  case (Cons i rest)
  show ?case
  proof (cases "i < length (positions s) \<and> collision (positions s ! ci) (positions s ! i)")
    case False
    with Cons.prems have "checkCandidates ci rest s = Inr (False, s1)"
      by (auto simp add: Let_def split: if_splits)
    from Cons.IH [OF this] show ?thesis .
  next
    case True
    note col = this
    show ?thesis
    proof (cases "hasSplit (positions s ! ci)")
      case True
      let ?s = "s\<lparr>directions := (directions s)
                   [ci := \<lparr>dx = dx (directions s ! ci) * (- 1), dy = dy (directions s ! ci) * (- 1),
                           dz = dz (directions s ! ci) * (- 1)\<rparr>]\<rparr>"
      from True col Cons.prems have "checkCandidates ci rest ?s = Inr (False, s1)"
        by (auto simp add: Let_def split: if_splits)
      from Cons.IH [OF this] obtain d where "s1 = ?s\<lparr>directions := (directions ?s)[ci := d]\<rparr>"
        by blast
      then have "s1 = s\<lparr>directions := (directions s)[ci := d]\<rparr>" by simp
      then show ?thesis by blast
    next
      case False
      with col Cons.prems show ?thesis
        by (auto simp add: Let_def split: if_splits sum.splits)
    qed
  qed
qed

lemma checkCollisions_other:
  assumes "checkCollisions i s = Inr (b, s1)" and "valid s j" and "j \<noteq> i"
  shows "positions s1 ! j = positions s ! j" and "angles s1 ! j = angles s ! j"
    and "speeds s1 ! j = speeds s ! j" and "colors s1 ! j = colors s ! j"
    and "directions s1 ! j = directions s ! j"
proof -
  from assms(2) have j: "j < length (positions s)" "j < length (angles s)" "j < length (speeds s)"
    "j < length (colors s)" "j < length (directions s)"
    by (simp_all add: valid_def)
  have "positions s1 ! j = positions s ! j \<and> angles s1 ! j = angles s ! j \<and>
     speeds s1 ! j = speeds s ! j \<and> colors s1 ! j = colors s ! j \<and>
     directions s1 ! j = directions s ! j"
  proof (cases b)
    case False
    from assms(1) obtain cands where "checkCandidates i cands s = Inr (b, s1)"
      by (auto simp add: checkCollisions_def split: sum.splits)
    with False checkCandidates_bounce [of i cands s s1]
    obtain d where "s1 = s\<lparr>directions := (directions s)[i := d]\<rparr>" by auto
    with assms(3) show ?thesis by simp
  next
    case True
    with checkCollisions_cases [OF assms(1)] obtain s2 where sp: "splitCube i s = Inr s2"
      and e: "s1 = s2\<lparr>positions := (positions s2)[i := (positions s2 ! i)\<lparr>hasSplit := True\<rparr>]\<rparr>"
      by blast
    from sp have v: "valid s i" and e2: "s2 = foldl (splitChild i (positions s ! i)) s [0..<8]"
      by (simp_all add: splitCube_def split: if_splits)
    from v have i: "i < length (angles s)" "i < length (speeds s)" "i < length (colors s)"
      by (simp_all add: valid_def)
    have "positions s2 ! j = positions s ! j"
      unfolding e2 split_positions using j by (simp add: nth_append)
    moreover have "angles s2 ! j = angles s ! j"
      unfolding e2 split_angles [OF i(1)] using j by (simp add: nth_append)
    moreover have "speeds s2 ! j = speeds s ! j"
      unfolding e2 split_speeds [OF i(2)] using j by (simp add: nth_append)
    moreover have "colors s2 ! j = colors s ! j"
      unfolding e2 split_colors [OF i(3)] using j by (simp add: nth_append)
    moreover have "directions s2 ! j = directions s ! j"
      unfolding e2 split_directions using j by (simp add: nth_append)
    ultimately show ?thesis using assms(3) by (simp add: e)
  qed
  then show "positions s1 ! j = positions s ! j" and "angles s1 ! j = angles s ! j"
    and "speeds s1 ! j = speeds s ! j" and "colors s1 ! j = colors s ! j"
    and "directions s1 ! j = directions s ! j"
    by simp_all
qed

lemma boundaryBounce_other:
  "j \<noteq> i \<Longrightarrow> directions (boundaryBounce i s) ! j = directions s ! j"
  by (simp add: boundaryBounce_def Let_def)

lemma grows_valid: "grows s s1 n \<Longrightarrow> valid s j \<Longrightarrow> valid s1 j"
  by (simp add: grows_def valid_def)

lemma renderCube_other:
  assumes "renderCube i s = Inr s1" and "valid s j" and "j \<noteq> i"
  shows "positions s1 ! j = positions s ! j" and "angles s1 ! j = angles s ! j"
    and "speeds s1 ! j = speeds s ! j" and "colors s1 ! j = colors s ! j"
    and "directions s1 ! j = directions s ! j" and "valid s1 j"
proof -
  let ?u = "updateColorTransition (colors s ! i) s"
  let ?s2 = "(snd ?u)\<lparr>colors := (colors (snd ?u))[i := fst ?u]\<rparr>"
  from assms(1) obtain b s3 where c: "checkCollisions i ?s2 = Inr (b, s3)"
    and e: "s1 = boundaryBounce i (integrate i s3)"
    by (auto simp add: renderCube_def Let_def split_beta split: if_splits sum.splits)
  from assms(2) have v2: "valid ?s2 j" by (simp add: valid_def uct_frame)
  note o = checkCollisions_other [OF c v2 assms(3)]
  from o(1) assms(3) show "positions s1 ! j = positions s ! j"
    by (simp add: e boundaryBounce_frame integrate_simps uct_frame)
  from o(2) assms(3) show "angles s1 ! j = angles s ! j"
    by (simp add: e boundaryBounce_frame integrate_simps uct_frame)
  from o(3) show "speeds s1 ! j = speeds s ! j"
    by (simp add: e boundaryBounce_frame integrate_simps uct_frame)
  from o(4) assms(3) show "colors s1 ! j = colors s ! j"
    by (simp add: e boundaryBounce_frame integrate_simps uct_frame)
  from o(5) assms(3) show "directions s1 ! j = directions s ! j"
    by (simp add: e boundaryBounce_other integrate_simps uct_frame)
  from renderCube_grows [OF assms(1)] obtain n where "grows s s1 n" by blast
  from grows_valid [OF this assms(2)] show "valid s1 j" .
qed

lemma renderIndices_other:
  assumes "renderIndices xs s = Inr s1" and "valid s j" and "j \<notin> set xs"
  shows "positions s1 ! j = positions s ! j \<and> angles s1 ! j = angles s ! j \<and>
     speeds s1 ! j = speeds s ! j \<and> colors s1 ! j = colors s ! j \<and>
     directions s1 ! j = directions s ! j"
  using assms
proof (induction xs arbitrary: s)
  case Nil
  then show ?case by simp
next
  case (Cons i rest)
  from Cons.prems(1) obtain s2 where r: "renderCube i s = Inr s2"
    and l: "renderIndices rest s2 = Inr s1"
    by (auto split: sum.splits)
  from Cons.prems(3) have n: "j \<noteq> i" "j \<notin> set rest" by simp_all
  note o = renderCube_other [OF r Cons.prems(2) n(1)]
  from Cons.IH [OF l o(6) n(2)] o(1-5) show ?case by simp
qed

lemma renderIndices_append:
  "renderIndices (xs @ ys) s =
     (case renderIndices xs s of Inl e \<Rightarrow> Inl e | Inr t \<Rightarrow> renderIndices ys t)"
  by (induction xs arbitrary: s) (simp_all split: sum.splits)

lemma renderIndices_grows:
  assumes "renderIndices xs s = Inr s1"
  shows "\<exists>n. grows s s1 n"
  using assms
proof (induction xs arbitrary: s)
  case Nil
  then have "grows s s1 0" by (auto simp add: grows_def)
  then show ?case by blast
next
  case (Cons i rest)
  from Cons.prems obtain s2 where r: "renderCube i s = Inr s2"
    and l: "renderIndices rest s2 = Inr s1"
    by (auto split: sum.splits)
  from renderCube_grows [OF r] obtain n where g: "grows s s2 n" by blast
  from Cons.IH [OF l] obtain m where "grows s2 s1 m" by blast
  from grows_trans [OF g this] show ?case by blast
qed

text \<open>An entity appended during the frame keeps step 0 until the loop reaches it.\<close>

lemma renderIndices_unvisited:
  assumes "renderIndices xs s = Inr t"
    and "\<forall>m. n0 \<le> m \<and> m < length (colors s) \<and> m \<notin> A \<longrightarrow> step (colors s ! m) = 0"
  shows "\<forall>m. n0 \<le> m \<and> m < length (colors t) \<and> m \<notin> A \<union> set xs \<longrightarrow> step (colors t ! m) = 0"
  using assms
proof (induction xs arbitrary: s A)
  case Nil
  then show ?case by simp
next
  case (Cons i rest)
  from Cons.prems(1) obtain s2 where r: "renderCube i s = Inr s2"
    and l: "renderIndices rest s2 = Inr t"
    by (auto split: sum.splits)
  from renderCube_colors [OF r] obtain cs where
    cs: "\<forall>c \<in> set cs. step c = 0"
    and c2: "colors s2 = (colors s)[i := fst (updateColorTransition (colors s ! i) s)] @ cs"
    by blast
  have inv: "\<forall>m. n0 \<le> m \<and> m < length (colors s2) \<and> m \<notin> insert i A \<longrightarrow> step (colors s2 ! m) = 0"
  proof (intro allI impI)
    fix m assume m: "n0 \<le> m \<and> m < length (colors s2) \<and> m \<notin> insert i A"
    show "step (colors s2 ! m) = 0"
    proof (cases "m < length (colors s)")
      case False
      with m c2 have "m - length (colors s) < length cs" by auto
      with cs have "step (cs ! (m - length (colors s))) = 0" by simp
      with False show ?thesis by (simp add: c2 nth_append)
    next
      case True
      with m Cons.prems(2) show ?thesis by (auto simp add: c2 nth_append)
    qed
  qed
  from Cons.IH [OF l inv] show ?case by simp
qed

text \<open>What the loop body does to an entity that is flagged as split and has step 0, as a
  child is when the loop reaches it: one colour step without a new target, a reversal of
  the velocity for every overlapping candidate, one integration of rotation and position,
  and the boundary checks on the new position.\<close>

lemma blend_three:
  "foldl (blendChannel tgt) cur [0..<3] =
     cur[0 := cur ! 0 + (tgt ! 0 - cur ! 0) * 0.02,
         1 := cur ! 1 + (tgt ! 1 - cur ! 1) * 0.02,
         2 := cur ! 2 + (tgt ! 2 - cur ! 2) * 0.02]"
  by (simp add: upt_0_3 blendChannel_def)

lemma getPotentialCollisions_colors:
  "getPotentialCollisions j (s\<lparr>colors := cs\<rparr>) = getPotentialCollisions j s"
  by (simp add: getPotentialCollisions_def)


lemma renderCube_child:
  assumes "valid t j" and "gridIndicesValid t"
    and "hasSplit (positions t ! j)" and "step (colors t ! j) = 0"
  shows "\<exists>cands t1. getPotentialCollisions j t = Inr cands \<and> renderCube j t = Inr t1 \<and>
     colors t1 ! j = \<lparr>current = (current (colors t ! j))
            [0 := current (colors t ! j) ! 0 +
                  (target (colors t ! j) ! 0 - current (colors t ! j) ! 0) * 0.02,
             1 := current (colors t ! j) ! 1 +
                  (target (colors t ! j) ! 1 - current (colors t ! j) ! 1) * 0.02,
             2 := current (colors t ! j) ! 2 +
                  (target (colors t ! j) ! 2 - current (colors t ! j) ! 2) * 0.02],
          target = target (colors t ! j), step = 0.005\<rparr> \<and>
     angles t1 ! j = angles t ! j + speeds t ! j \<and>
     speeds t1 ! j = speeds t ! j \<and>
     positions t1 ! j =
       \<lparr>x = x (positions t ! j) +
              (- 1) ^ length (filter (\<lambda>i. collision (positions t ! j) (positions t ! i)) cands) *
              dx (directions t ! j),
        y = y (positions t ! j) +
              (- 1) ^ length (filter (\<lambda>i. collision (positions t ! j) (positions t ! i)) cands) *
              dy (directions t ! j),
        z = z (positions t ! j) +
              (- 1) ^ length (filter (\<lambda>i. collision (positions t ! j) (positions t ! i)) cands) *
              dz (directions t ! j),
        hasSplit = True\<rparr> \<and>
     directions t1 ! j =
       \<lparr>dx = (if x (positions t1 ! j) > bound_x (boundary t) \<or>
                 x (positions t1 ! j) < - bound_x (boundary t) then - 1 else 1) *
              ((- 1) ^ length (filter (\<lambda>i. collision (positions t ! j) (positions t ! i)) cands) *
               dx (directions t ! j)),
        dy = (if y (positions t1 ! j) > bound_y (boundary t) \<or>
                 y (positions t1 ! j) < - bound_y (boundary t) then - 1 else 1) *
              ((- 1) ^ length (filter (\<lambda>i. collision (positions t ! j) (positions t ! i)) cands) *
               dy (directions t ! j)),
        dz = (if z (positions t1 ! j) > - 0.5 \<or>
                 z (positions t1 ! j) < bound_z (boundary t) then - 1 else 1) *
              ((- 1) ^ length (filter (\<lambda>i. collision (positions t ! j) (positions t ! i)) cands) *
               dz (directions t ! j))\<rparr>"
proof -
  from assms(1) have j: "j < length (positions t)" "j < length (angles t)" "j < length (speeds t)"
    "j < length (colors t)" "j < length (directions t)"
    by (simp_all add: valid_def)
  let ?c = "colors t ! j"
  let ?c2 = "\<lparr>current = (current ?c)
            [0 := current ?c ! 0 + (target ?c ! 0 - current ?c ! 0) * 0.02,
             1 := current ?c ! 1 + (target ?c ! 1 - current ?c ! 1) * 0.02,
             2 := current ?c ! 2 + (target ?c ! 2 - current ?c ! 2) * 0.02],
          target = target ?c, step = 0.005\<rparr>"
  have u: "updateColorTransition ?c t = (?c2, t)"
    by (simp add: updateColorTransition_def Let_def assms(4) blend_three)
  let ?s2 = "t\<lparr>colors := (colors t)[j := ?c2]\<rparr>"
  from getPotentialCollisions_set [OF j(1)] obtain cands where
    g: "getPotentialCollisions j t = Inr cands" by blast
  then have g2: "getPotentialCollisions j ?s2 = Inr cands"
    by (simp add: getPotentialCollisions_colors)
  define k where "k = length (filter (\<lambda>i. collision (positions t ! j) (positions t ! i)) cands)"
  let ?d = "\<lparr>dx = (- 1) ^ k * dx (directions t ! j), dy = (- 1) ^ k * dy (directions t ! j),
             dz = (- 1) ^ k * dz (directions t ! j)\<rparr>"
  let ?s3 = "?s2\<lparr>directions := (directions t)[j := ?d]\<rparr>"
  from candidates_valid [OF assms(2) g] have cv: "\<forall>i \<in> set cands. i < length (positions ?s2)"
    by simp
  have "checkCandidates j cands ?s2 = Inr (False, ?s3)"
    using checkCandidates_split [of ?s2 j cands] assms(3) j(5) cv by (simp add: k_def)
  with g2 have cc: "checkCollisions j ?s2 = Inr (False, ?s3)"
    by (simp add: checkCollisions_def)
  let ?t1 = "boundaryBounce j (integrate j ?s3)"
  from assms(1) u cc have r: "renderCube j t = Inr ?t1"
    by (simp add: renderCube_def)
  have c: "colors ?t1 ! j = ?c2"
    using j by (simp add: boundaryBounce_frame integrate_simps)
  have a: "angles ?t1 ! j = angles t ! j + speeds t ! j"
    using j by (simp add: boundaryBounce_frame integrate_simps)
  have sp: "speeds ?t1 ! j = speeds t ! j"
    by (simp add: boundaryBounce_frame integrate_simps)
  have p: "positions ?t1 ! j =
       \<lparr>x = x (positions t ! j) + (- 1) ^ k * dx (directions t ! j),
        y = y (positions t ! j) + (- 1) ^ k * dy (directions t ! j),
        z = z (positions t ! j) + (- 1) ^ k * dz (directions t ! j), hasSplit = True\<rparr>"
    using j assms(3) by (simp add: boundaryBounce_frame integrate_simps)
  have d: "directions ?t1 ! j =
       \<lparr>dx = (if x (positions ?t1 ! j) > bound_x (boundary t) \<or>
                 x (positions ?t1 ! j) < - bound_x (boundary t) then - 1 else 1) *
              ((- 1) ^ k * dx (directions t ! j)),
        dy = (if y (positions ?t1 ! j) > bound_y (boundary t) \<or>
                 y (positions ?t1 ! j) < - bound_y (boundary t) then - 1 else 1) *
              ((- 1) ^ k * dy (directions t ! j)),
        dz = (if z (positions ?t1 ! j) > - 0.5 \<or>
                 z (positions ?t1 ! j) < bound_z (boundary t) then - 1 else 1) *
              ((- 1) ^ k * dz (directions t ! j))\<rparr>"
    unfolding p using j
    by (simp add: boundaryBounce_def Let_def integrate_simps flipX_def flipY_def flipZ_def)
  from g r c a sp p d show ?thesis unfolding k_def by blast
qed


lemma upt_split: "j < n \<Longrightarrow> [0..<n] = [0..<j] @ j # [Suc j..<n]"
  using upt_add_eq_append [of 0 j "n - j"] upt_conv_Cons [of j n] by simp

lemma renderIndices_child:
  assumes idx: "renderIndices [0..<length (positions s1)] u = Inr s1"
    and al: "aligned u" and gv: "gridIndicesValid u"
    and j: "length (positions u) \<le> j" "j < length (positions s1)"
  shows "\<exists>t cands. renderIndices [0..<j] u = Inr t \<and> j < length (positions t) \<and>
     hasSplit (positions t ! j) \<and> step (colors t ! j) = 0 \<and>
     getPotentialCollisions j t = Inr cands \<and>
     colors s1 ! j = \<lparr>current = (current (colors t ! j))
            [0 := current (colors t ! j) ! 0 +
                  (target (colors t ! j) ! 0 - current (colors t ! j) ! 0) * 0.02,
             1 := current (colors t ! j) ! 1 +
                  (target (colors t ! j) ! 1 - current (colors t ! j) ! 1) * 0.02,
             2 := current (colors t ! j) ! 2 +
                  (target (colors t ! j) ! 2 - current (colors t ! j) ! 2) * 0.02],
          target = target (colors t ! j), step = 0.005\<rparr> \<and>
     angles s1 ! j = angles t ! j + speeds t ! j \<and>
     speeds s1 ! j = speeds t ! j \<and>
     positions s1 ! j =
       \<lparr>x = x (positions t ! j) + (- 1) ^ length (filter (\<lambda>i. collision (positions t ! j) (positions t ! i)) cands) * dx (directions t ! j),
        y = y (positions t ! j) + (- 1) ^ length (filter (\<lambda>i. collision (positions t ! j) (positions t ! i)) cands) * dy (directions t ! j),
        z = z (positions t ! j) + (- 1) ^ length (filter (\<lambda>i. collision (positions t ! j) (positions t ! i)) cands) * dz (directions t ! j),
        hasSplit = True\<rparr> \<and>
     directions s1 ! j =
       \<lparr>dx = (if x (positions s1 ! j) > bound_x (boundary u) \<or>
                 x (positions s1 ! j) < - bound_x (boundary u) then - 1 else 1) *
              ((- 1) ^ length (filter (\<lambda>i. collision (positions t ! j) (positions t ! i)) cands) * dx (directions t ! j)),
        dy = (if y (positions s1 ! j) > bound_y (boundary u) \<or>
                 y (positions s1 ! j) < - bound_y (boundary u) then - 1 else 1) *
              ((- 1) ^ length (filter (\<lambda>i. collision (positions t ! j) (positions t ! i)) cands) * dy (directions t ! j)),
        dz = (if z (positions s1 ! j) > - 0.5 \<or>
                 z (positions s1 ! j) < bound_z (boundary u) then - 1 else 1) *
              ((- 1) ^ length (filter (\<lambda>i. collision (positions t ! j) (positions t ! i)) cands) * dz (directions t ! j))\<rparr>"
proof -
  let ?n1 = "length (positions s1)"
  from j(2) have "[0..<?n1] = [0..<j] @ j # [Suc j..<?n1]"
    by (rule upt_split)
  with idx obtain t t1 where pre: "renderIndices [0..<j] u = Inr t"
    and r: "renderCube j t = Inr t1" and post: "renderIndices [Suc j..<?n1] t1 = Inr s1"
    by (auto simp add: renderIndices_append split: sum.splits)
  from r have v: "valid t j"
    by (simp add: renderCube_def split: if_splits)
  then have jt: "j < length (positions t)" by (simp add: valid_def)
  from renderIndices_grows [OF pre] obtain n where g: "grows u t n" by blast
  from grows_gridIndicesValid [OF g gv] have gvt: "gridIndicesValid t" .
  from g j(1) jt have h: "hasSplit (positions t ! j)" by (simp add: grows_def)
  from g have b: "boundary t = boundary u" by (simp add: grows_def)
  from al have "length (colors u) = length (positions u)" by (simp add: aligned_def)
  then have "\<forall>m. length (positions u) \<le> m \<and> m < length (colors u) \<and> m \<notin> {} \<longrightarrow>
      step (colors u ! m) = 0" by simp
  from renderIndices_unvisited [OF pre this] v j(1) have st: "step (colors t ! j) = 0"
    by (simp add: valid_def)
  from renderCube_child [OF v gvt h st] r obtain cands where
    c: "getPotentialCollisions j t = Inr cands"
    and e: "colors t1 ! j = \<lparr>current = (current (colors t ! j))
            [0 := current (colors t ! j) ! 0 +
                  (target (colors t ! j) ! 0 - current (colors t ! j) ! 0) * 0.02,
             1 := current (colors t ! j) ! 1 +
                  (target (colors t ! j) ! 1 - current (colors t ! j) ! 1) * 0.02,
             2 := current (colors t ! j) ! 2 +
                  (target (colors t ! j) ! 2 - current (colors t ! j) ! 2) * 0.02],
          target = target (colors t ! j), step = 0.005\<rparr>"
     "angles t1 ! j = angles t ! j + speeds t ! j"
     "speeds t1 ! j = speeds t ! j"
     "positions t1 ! j =
       \<lparr>x = x (positions t ! j) + (- 1) ^ length (filter (\<lambda>i. collision (positions t ! j) (positions t ! i)) cands) * dx (directions t ! j),
        y = y (positions t ! j) + (- 1) ^ length (filter (\<lambda>i. collision (positions t ! j) (positions t ! i)) cands) * dy (directions t ! j),
        z = z (positions t ! j) + (- 1) ^ length (filter (\<lambda>i. collision (positions t ! j) (positions t ! i)) cands) * dz (directions t ! j),
        hasSplit = True\<rparr>"
     "directions t1 ! j =
       \<lparr>dx = (if x (positions t1 ! j) > bound_x (boundary t) \<or>
                 x (positions t1 ! j) < - bound_x (boundary t) then - 1 else 1) *
              ((- 1) ^ length (filter (\<lambda>i. collision (positions t ! j) (positions t ! i)) cands) * dx (directions t ! j)),
        dy = (if y (positions t1 ! j) > bound_y (boundary t) \<or>
                 y (positions t1 ! j) < - bound_y (boundary t) then - 1 else 1) *
              ((- 1) ^ length (filter (\<lambda>i. collision (positions t ! j) (positions t ! i)) cands) * dy (directions t ! j)),
        dz = (if z (positions t1 ! j) > - 0.5 \<or>
                 z (positions t1 ! j) < bound_z (boundary t) then - 1 else 1) *
              ((- 1) ^ length (filter (\<lambda>i. collision (positions t ! j) (positions t ! i)) cands) * dz (directions t ! j))\<rparr>"
    by auto
  from renderCube_grows [OF r] obtain m where "grows t t1 m" by blast
  from grows_valid [OF this v] have v1: "valid t1 j" .
  have "j \<notin> set [Suc j..<?n1]" by simp
  from renderIndices_other [OF post v1 this] have o:
    "positions s1 ! j = positions t1 ! j" "angles s1 ! j = angles t1 ! j"
    "speeds s1 ! j = speeds t1 ! j" "colors s1 ! j = colors t1 ! j"
    "directions s1 ! j = directions t1 ! j"
    by simp_all
  from pre jt h st c e show ?thesis
    unfolding o b by blast
qed


text \<open>
  Claim C9. A frame on aligned arrays returns, and what it returns is the result of
  running the loop body once for each index below the \<^emph>\<open>final\<close> population, in order: the
  entities appended during the frame are visited in it. For every entity \<open>j\<close> created in the
  frame, let \<open>t\<close> be the world when the loop reaches \<open>j\<close>, after the visits of the indices
  below \<open>j\<close>: there the entity exists, flagged as split and with step 0. At the end of the
  frame it is what one visit makes of it. Its colour has advanced by one step: step 0.005,
  the same target, each of the three colour channels moved by 0.02 of its distance to the
  target. Its collisions are resolved: with \<open>k\<close> the number of neighbour candidates that
  overlap it in \<open>t\<close>, its velocity is \<open>(-1)^k\<close> times the velocity in \<open>t\<close>, before the
  boundary checks. Its angle has grown by its speed and its position by that velocity,
  once. Each velocity component is reversed once more when the new position is beyond the
  bound of its axis.
\<close>

theorem C9_children_visited:
  assumes "aligned s" and "\<not> animationPaused s"
  shows "\<exists>s1. render s = Inr s1 \<and>
     length (positions s) \<le> length (positions s1) \<and>
     renderIndices [0..<length (positions s1)] (updateGrid s) = Inr s1 \<and>
     (\<forall>j. length (positions s) \<le> j \<and> j < length (positions s1) \<longrightarrow>
        hasSplit (positions s1 ! j) \<and> step (colors s1 ! j) = 0.005 \<and>
        (\<exists>t cands. renderIndices [0..<j] (updateGrid s) = Inr t \<and> j < length (positions t) \<and>
           hasSplit (positions t ! j) \<and> step (colors t ! j) = 0 \<and>
           getPotentialCollisions j t = Inr cands \<and>
           colors s1 ! j = \<lparr>current = (current (colors t ! j))
                  [0 := current (colors t ! j) ! 0 +
                        (target (colors t ! j) ! 0 - current (colors t ! j) ! 0) * 0.02,
                   1 := current (colors t ! j) ! 1 +
                        (target (colors t ! j) ! 1 - current (colors t ! j) ! 1) * 0.02,
                   2 := current (colors t ! j) ! 2 +
                        (target (colors t ! j) ! 2 - current (colors t ! j) ! 2) * 0.02],
                target = target (colors t ! j), step = 0.005\<rparr> \<and>
           angles s1 ! j = angles t ! j + speeds t ! j \<and>
           speeds s1 ! j = speeds t ! j \<and>
           positions s1 ! j =
             \<lparr>x = x (positions t ! j) + (- 1) ^ length (filter (\<lambda>i. collision (positions t ! j) (positions t ! i)) cands) * dx (directions t ! j),
              y = y (positions t ! j) + (- 1) ^ length (filter (\<lambda>i. collision (positions t ! j) (positions t ! i)) cands) * dy (directions t ! j),
              z = z (positions t ! j) + (- 1) ^ length (filter (\<lambda>i. collision (positions t ! j) (positions t ! i)) cands) * dz (directions t ! j),
              hasSplit = True\<rparr> \<and>
           directions s1 ! j =
             \<lparr>dx = (if x (positions s1 ! j) > bound_x (boundary s) \<or>
                       x (positions s1 ! j) < - bound_x (boundary s) then - 1 else 1) *
                    ((- 1) ^ length (filter (\<lambda>i. collision (positions t ! j) (positions t ! i)) cands) * dx (directions t ! j)),
              dy = (if y (positions s1 ! j) > bound_y (boundary s) \<or>
                       y (positions s1 ! j) < - bound_y (boundary s) then - 1 else 1) *
                    ((- 1) ^ length (filter (\<lambda>i. collision (positions t ! j) (positions t ! i)) cands) * dy (directions t ! j)),
              dz = (if z (positions s1 ! j) > - 0.5 \<or>
                       z (positions s1 ! j) < bound_z (boundary s) then - 1 else 1) *
                    ((- 1) ^ length (filter (\<lambda>i. collision (positions t ! j) (positions t ! i)) cands) * dz (directions t ! j))\<rparr>))"
proof -
  from render_total [OF assms(1)] obtain s1 where r: "render s = Inr s1" by blast
  with assms(2) have l: "renderLoop 0 (updateGrid s) = Inr s1" by (simp add: render_def)
  have al: "aligned (updateGrid s)" using assms(1) by (simp add: updateGrid_aligned)
  from render_splitsKept [OF r] have k: "splitsKept s s1" .
  from render_aligned [OF r assms(1)] have al1: "length (colors s1) = length (positions s1)"
    by (simp add: aligned_def)
  from assms(1) have al0: "length (colors s) = length (positions s)"
    by (simp add: aligned_def)
  have "\<forall>j. length (positions s) \<le> j \<and> j < length (colors (updateGrid s)) \<longrightarrow>
      step (colors (updateGrid s) ! j) = (if j < 0 then 0.005 else 0)"
    by (simp add: updateGrid_frame al0)
  from renderLoop_child_steps [OF l al this]
  have st: "\<forall>j. length (positions s) \<le> j \<and> j < length (positions s1) \<longrightarrow> step (colors s1 ! j) = 0.005"
    by (simp add: al1)
  note idx = renderLoop_indices [OF l]
  note child = renderIndices_child [OF idx al updateGrid_valid, unfolded updateGrid_frame]
  from r k idx st child show ?thesis
    unfolding splitsKept_def by (intro exI [of _ s1]) blast
qed

lemma exampleWorld_first_cube:
  "map_sum id (\<lambda>s. length (positions s)) (renderCube 0 (updateGrid exampleWorld)) =
     (Inr 10 :: js_error + nat)"
  by code_simp

lemma exampleWorld_two_cubes:
  "map_sum id (\<lambda>t. (positions t ! 2, angles t ! 2, speeds t ! 2, colors t ! 2, directions t ! 2,
       map_sum id (\<lambda>c. length (filter (\<lambda>i. collision (positions t ! 2) (positions t ! i)) c))
         (getPotentialCollisions 2 t)))
     (renderIndices [0, 1] (updateGrid exampleWorld)) =
   (Inr (\<lparr>x = - (1 / 10), y = - (1 / 10), z = - (17 / 20), hasSplit = True\<rparr>, 0, 3 / 250,
         \<lparr>current = [51 / 100, 49 / 100, 49 / 100, 1], target = [1 / 2, 1 / 3, 1 / 4, 1],
           step = 0\<rparr>,
         \<lparr>dx = - (3 / 1000), dy = - (1 / 300), dz = - (1 / 280)\<rparr>,
         (Inr 2 :: js_error + nat)) ::
     js_error + Position \<times> real \<times> real \<times> Color \<times> Direction \<times> (js_error + nat))"
  by code_simp


text \<open>In \<open>exampleWorld\<close> the two cubes overlap: cube 0 splits into the entities 2 to 9 and
  cube 1 into the entities 10 to 17. When the loop reaches entity 2 it sits at
  \<open>(-0.1, -0.1, -0.85)\<close> with angle 0, speed 0.012 and the colour \<open>[0.51, 0.49, 0.49, 1]\<close> of
  its parent, and overlaps both candidates, so that its velocity is reversed twice. The
  frame ends with entity 2 moved by its velocity, turned by its speed and one colour step
  nearer its target.\<close>

theorem C9_children_visited_witness:
  "aligned exampleWorld \<and> \<not> animationPaused exampleWorld \<and>
   (\<exists>s1. render exampleWorld = Inr s1 \<and> 10 \<le> length (positions s1) \<and>
      renderIndices [0..<length (positions s1)] (updateGrid exampleWorld) = Inr s1 \<and>
      hasSplit (positions s1 ! 2) \<and> step (colors s1 ! 2) = 0.005 \<and>
      hasSplit (positions s1 ! 9) \<and> step (colors s1 ! 9) = 0.005 \<and>
      positions s1 ! 2 =
        \<lparr>x = - (103 / 1000), y = - (31 / 300), z = - (239 / 280), hasSplit = True\<rparr> \<and>
      angles s1 ! 2 = 3 / 250 \<and> speeds s1 ! 2 = 3 / 250 \<and>
      colors s1 ! 2 =
        \<lparr>current = [2549 / 5000, 7303 / 15000, 1213 / 2500, 1],
          target = [1 / 2, 1 / 3, 1 / 4, 1], step = 1 / 200\<rparr> \<and>
      directions s1 ! 2 = \<lparr>dx = - (3 / 1000), dy = - (1 / 300), dz = - (1 / 280)\<rparr>)"
proof -
  have p: "\<not> animationPaused exampleWorld" and n: "length (positions exampleWorld) = 2"
    and b: "boundary exampleWorld = \<lparr>bound_x = 1, bound_y = 1, bound_z = - 1\<rparr>"
    by (simp_all add: exampleWorld_def)
  from C9_children_visited [OF exampleWorld_aligned p] obtain s1 where
    r: "render exampleWorld = Inr s1"
    and i: "renderIndices [0..<length (positions s1)] (updateGrid exampleWorld) = Inr s1"
    and c: "\<And>j. length (positions exampleWorld) \<le> j \<and> j < length (positions s1) \<Longrightarrow>
        hasSplit (positions s1 ! j) \<and> step (colors s1 ! j) = 0.005 \<and>
        (\<exists>t cands. renderIndices [0..<j] (updateGrid exampleWorld) = Inr t \<and>
           j < length (positions t) \<and>
           hasSplit (positions t ! j) \<and> step (colors t ! j) = 0 \<and>
           getPotentialCollisions j t = Inr cands \<and>
           colors s1 ! j = \<lparr>current = (current (colors t ! j))
                  [0 := current (colors t ! j) ! 0 +
                        (target (colors t ! j) ! 0 - current (colors t ! j) ! 0) * 0.02,
                   1 := current (colors t ! j) ! 1 +
                        (target (colors t ! j) ! 1 - current (colors t ! j) ! 1) * 0.02,
                   2 := current (colors t ! j) ! 2 +
                        (target (colors t ! j) ! 2 - current (colors t ! j) ! 2) * 0.02],
                target = target (colors t ! j), step = 0.005\<rparr> \<and>
           angles s1 ! j = angles t ! j + speeds t ! j \<and>
           speeds s1 ! j = speeds t ! j \<and>
           positions s1 ! j =
             \<lparr>x = x (positions t ! j) +
                    (- 1) ^ length (filter (\<lambda>i. collision (positions t ! j) (positions t ! i)) cands) *
                    dx (directions t ! j),
              y = y (positions t ! j) +
                    (- 1) ^ length (filter (\<lambda>i. collision (positions t ! j) (positions t ! i)) cands) *
                    dy (directions t ! j),
              z = z (positions t ! j) +
                    (- 1) ^ length (filter (\<lambda>i. collision (positions t ! j) (positions t ! i)) cands) *
                    dz (directions t ! j),
              hasSplit = True\<rparr> \<and>
           directions s1 ! j =
             \<lparr>dx = (if x (positions s1 ! j) > bound_x (boundary exampleWorld) \<or>
                       x (positions s1 ! j) < - bound_x (boundary exampleWorld) then - 1 else 1) *
                    ((- 1) ^ length (filter (\<lambda>i. collision (positions t ! j) (positions t ! i)) cands) *
                     dx (directions t ! j)),
              dy = (if y (positions s1 ! j) > bound_y (boundary exampleWorld) \<or>
                       y (positions s1 ! j) < - bound_y (boundary exampleWorld) then - 1 else 1) *
                    ((- 1) ^ length (filter (\<lambda>i. collision (positions t ! j) (positions t ! i)) cands) *
                     dy (directions t ! j)),
              dz = (if z (positions s1 ! j) > - 0.5 \<or>
                       z (positions s1 ! j) < bound_z (boundary exampleWorld) then - 1 else 1) *
                    ((- 1) ^ length (filter (\<lambda>i. collision (positions t ! j) (positions t ! i)) cands) *
                     dz (directions t ! j))\<rparr>)"
    by blast
  from r p have l: "renderLoop 0 (updateGrid exampleWorld) = Inr s1"
    by (simp add: render_def)
  have "0 < length (positions (updateGrid exampleWorld))"
    by (simp add: updateGrid_frame n)
  moreover obtain s2 where f: "renderCube 0 (updateGrid exampleWorld) = Inr s2"
    and f10: "length (positions s2) = 10"
    using exampleWorld_first_cube by (cases "renderCube 0 (updateGrid exampleWorld)") auto
  ultimately have "renderLoop (Suc 0) s2 = Inr s1"
    using l by (simp add: renderLoop_step)
  from renderLoop_grows [OF this] f10 have big: "10 \<le> length (positions s1)"
    by (auto simp add: grows_def)
  from c [of 9] big n have nine: "hasSplit (positions s1 ! 9)" "step (colors s1 ! 9) = 0.005"
    by simp_all
  have two: "[0..<2] = [0, Suc 0]" by (simp add: upt_rec)
  from c [of 2] big n obtain t cands where
    t: "renderIndices [0, 1] (updateGrid exampleWorld) = Inr t"
    and g: "getPotentialCollisions 2 t = Inr cands"
    and h: "hasSplit (positions s1 ! 2)" "step (colors s1 ! 2) = 0.005"
    and e: "colors s1 ! 2 = \<lparr>current = (current (colors t ! 2))
                  [0 := current (colors t ! 2) ! 0 +
                        (target (colors t ! 2) ! 0 - current (colors t ! 2) ! 0) * 0.02,
                   1 := current (colors t ! 2) ! 1 +
                        (target (colors t ! 2) ! 1 - current (colors t ! 2) ! 1) * 0.02,
                   2 := current (colors t ! 2) ! 2 +
                        (target (colors t ! 2) ! 2 - current (colors t ! 2) ! 2) * 0.02],
                target = target (colors t ! 2), step = 0.005\<rparr>"
      "angles s1 ! 2 = angles t ! 2 + speeds t ! 2"
      "speeds s1 ! 2 = speeds t ! 2"
      "positions s1 ! 2 =
             \<lparr>x = x (positions t ! 2) +
                    (- 1) ^ length (filter (\<lambda>i. collision (positions t ! 2) (positions t ! i)) cands) *
                    dx (directions t ! 2),
              y = y (positions t ! 2) +
                    (- 1) ^ length (filter (\<lambda>i. collision (positions t ! 2) (positions t ! i)) cands) *
                    dy (directions t ! 2),
              z = z (positions t ! 2) +
                    (- 1) ^ length (filter (\<lambda>i. collision (positions t ! 2) (positions t ! i)) cands) *
                    dz (directions t ! 2),
              hasSplit = True\<rparr>"
      "directions s1 ! 2 =
             \<lparr>dx = (if x (positions s1 ! 2) > bound_x (boundary exampleWorld) \<or>
                       x (positions s1 ! 2) < - bound_x (boundary exampleWorld) then - 1 else 1) *
                    ((- 1) ^ length (filter (\<lambda>i. collision (positions t ! 2) (positions t ! i)) cands) *
                     dx (directions t ! 2)),
              dy = (if y (positions s1 ! 2) > bound_y (boundary exampleWorld) \<or>
                       y (positions s1 ! 2) < - bound_y (boundary exampleWorld) then - 1 else 1) *
                    ((- 1) ^ length (filter (\<lambda>i. collision (positions t ! 2) (positions t ! i)) cands) *
                     dy (directions t ! 2)),
              dz = (if z (positions s1 ! 2) > - 0.5 \<or>
                       z (positions s1 ! 2) < bound_z (boundary exampleWorld) then - 1 else 1) *
                    ((- 1) ^ length (filter (\<lambda>i. collision (positions t ! 2) (positions t ! i)) cands) *
                     dz (directions t ! 2))\<rparr>"
    unfolding two by auto
  note w = exampleWorld_two_cubes [unfolded t g map_sum.simps sum.inject prod.inject]
  have v:
    "positions t ! 2 = \<lparr>x = - (1 / 10), y = - (1 / 10), z = - (17 / 20), hasSplit = True\<rparr>"
    "angles t ! 2 = 0" "speeds t ! 2 = 3 / 250"
    "colors t ! 2 = \<lparr>current = [51 / 100, 49 / 100, 49 / 100, 1],
       target = [1 / 2, 1 / 3, 1 / 4, 1], step = 0\<rparr>"
    "directions t ! 2 = \<lparr>dx = - (3 / 1000), dy = - (1 / 300), dz = - (1 / 280)\<rparr>"
    "length (filter (\<lambda>i. collision (positions t ! 2) (positions t ! i)) cands) = 2"
    using w by blast+
  note k = v(6) [unfolded v(1)]
  have pos: "positions s1 ! 2 =
        \<lparr>x = - (103 / 1000), y = - (31 / 300), z = - (239 / 280), hasSplit = True\<rparr>"
    unfolding e(4) v(1-5) k by simp
  have dir: "directions s1 ! 2 = \<lparr>dx = - (3 / 1000), dy = - (1 / 300), dz = - (1 / 280)\<rparr>"
    unfolding e(5) pos v(1-5) k b by simp
  have col: "colors s1 ! 2 =
        \<lparr>current = [2549 / 5000, 7303 / 15000, 1213 / 2500, 1],
          target = [1 / 2, 1 / 3, 1 / 4, 1], step = 1 / 200\<rparr>"
    unfolding e(1) v(1-5) by simp
  have ang: "angles s1 ! 2 = 3 / 250" "speeds s1 ! 2 = 3 / 250"
    unfolding e(2,3) v(1-5) by simp_all
  from exampleWorld_aligned p r i big h nine pos ang col dir show ?thesis by blast
qed


section \<open>Completeness of the neighbour query\<close>

lemma neighborOffsets_set:
  "set neighborOffsets = {- 1, 0, 1} \<times> {- 1, 0, 1} \<times> {- 1, 0, 1}"
  by (auto simp add: neighborOffsets_def)

lemma getGridIndex_cong:
  "cellSize g1 = cellSize g \<Longrightarrow> gridSize g1 = gridSize g \<Longrightarrow>
   getGridIndex fl b g1 = getGridIndex fl b g"
  by (simp add: getGridIndex_def fun_eq_iff)

lemma cellOf_updateGrid: "cellOf (updateGrid s) k = cellOf s k"
  by (simp add: cellOf_def updateGrid_frame getGridIndex_cong [of "spatialGrid (updateGrid s)" "spatialGrid s"])

lemma cellOf_coordinates:
  "cellOf s k = cellX s k + cellY s k * gridSize (spatialGrid s) +
     cellZ s k * gridSize (spatialGrid s) * gridSize (spatialGrid s)"
  by (simp add: cellOf_def getGridIndex_def cellX_def cellY_def cellZ_def Let_def)

lemma candidates_updateGrid:
  assumes "i < length (positions s)"
  shows "\<exists>cands. getPotentialCollisions i (updateGrid s) = Inr cands \<and>
     set cands = (\<Union>off \<in> set neighborOffsets.
        neighborCell (spatialGrid (updateGrid s)) (cellOf s i) off) - {i}"
  using getPotentialCollisions_set [of i "updateGrid s"] assms cellOf_updateGrid [of s i]
  by (simp add: updateGrid_frame cellOf_def)






text \<open>A candidate sits in a cell whose flattened index is that of the asking entity plus one of the 27 offsets.\<close>

lemma candidates_offset:
  assumes "getPotentialCollisions i (updateGrid s) = Inr cands" and "j \<in> set cands"
  shows "\<exists>off \<in> set neighborOffsets. case off of (ox, oy, oz) \<Rightarrow>
     cellOf s j = cellOf s i + ox + oy * gridSize (spatialGrid s) +
       oz * gridSize (spatialGrid s) * gridSize (spatialGrid s)"
proof -
  let ?g = "spatialGrid (updateGrid s)" and ?G = "gridSize (spatialGrid s)"
  from assms(1) have "i < length (positions s)"
    by (simp add: getPotentialCollisions_def updateGrid_frame split: if_splits)
  from candidates_updateGrid [OF this] assms obtain off where
    m: "off \<in> set neighborOffsets" and n: "j \<in> neighborCell ?g (cellOf s i) off" by auto
  obtain ox oy oz where off: "off = (ox, oy, oz)" by (cases off) auto
  let ?n = "cellOf s i + ox + oy * ?G + oz * ?G * ?G"
  from n have r: "0 \<le> ?n \<and> ?n < int (length (grid (spatialGrid s)))"
    and e: "j \<in> set (grid ?g ! nat ?n)"
    unfolding off by (simp_all add: neighborCell_def updateGrid_frame updateGrid_length split: if_splits)
  from r have "nat ?n < length (grid (spatialGrid s))" by linarith
  from updateGrid_mem [OF this, of j] e r have "cellOf s j = ?n"
    by (simp add: cellOf_def)
  with m off show ?thesis by (intro bexI [of _ off]) auto
qed



text \<open>With exact arithmetic, positions less than a cell apart have neighbouring cell
  coordinates; with rounded arithmetic they need not, see \<open>roundedWorld\<close> below.\<close>

lemma floor_close:
  fixes u v :: real
  assumes "\<bar>u - v\<bar> < 1"
  shows "\<bar>\<lfloor>u\<rfloor> - \<lfloor>v\<rfloor>\<bar> \<le> 1"
proof -
  have "of_int \<lfloor>u\<rfloor> \<le> u" "u < of_int \<lfloor>u\<rfloor> + 1" "of_int \<lfloor>v\<rfloor> \<le> v" "v < of_int \<lfloor>v\<rfloor> + 1"
    by linarith+
  with assms have "(of_int (\<lfloor>v\<rfloor> - \<lfloor>u\<rfloor>) :: real) < 2" "- 2 < (of_int (\<lfloor>v\<rfloor> - \<lfloor>u\<rfloor>) :: real)"
    by (simp_all; linarith)+
  then have "\<lfloor>v\<rfloor> - \<lfloor>u\<rfloor> < 2" "- 2 < \<lfloor>v\<rfloor> - \<lfloor>u\<rfloor>"
    by linarith+
  then show ?thesis by linarith
qed

lemma exact_coordinate_close:
  fixes a b bound c :: real
  assumes "\<bar>a - b\<bar> < c"
  shows "\<bar>gridCoordinate (\<lambda>v. v) c a bound - gridCoordinate (\<lambda>v. v) c b bound\<bar> \<le> 1"
proof -
  from assms have c: "0 < c" by linarith
  have "(a + bound) / c - (b + bound) / c = (a - b) / c"
    by (simp add: diff_divide_distrib add_divide_distrib)
  then have "\<bar>(a + bound) / c - (b + bound) / c\<bar> = \<bar>a - b\<bar> / c"
    using c by simp
  also have "\<dots> < 1" using assms c by simp
  finally show ?thesis unfolding gridCoordinate_def by (rule floor_close)
qed

lemma exact_cells_close:
  assumes "rounding s = (\<lambda>v. v)"
    and "\<bar>x (positions s ! i) - x (positions s ! j)\<bar> < cellSize (spatialGrid s)"
    and "\<bar>y (positions s ! i) - y (positions s ! j)\<bar> < cellSize (spatialGrid s)"
    and "\<bar>z (positions s ! i) - z (positions s ! j)\<bar> < cellSize (spatialGrid s)"
  shows "\<bar>cellX s i - cellX s j\<bar> \<le> 1 \<and> \<bar>cellY s i - cellY s j\<bar> \<le> 1 \<and> \<bar>cellZ s i - cellZ s j\<bar> \<le> 1"
  using exact_coordinate_close [OF assms(2)] exact_coordinate_close [OF assms(3)]
    exact_coordinate_close [OF assms(4)]
  by (simp add: cellX_def cellY_def cellZ_def assms(1))





text \<open>Nor is a distance below \<open>cellSize\<close> enough for two stored cubes. In the grid of the
  source, with the sum \<open>x + boundary.x\<close> rounded as a double rounds it, the cubes at
  \<open>x = 0.5 - 3 / 2 ^ 54\<close> and \<open>x = 1 - 1 / 2 ^ 52\<close> are less than half a unit apart and are
  stored in the cells 1059 and 1061, two columns apart: neither is a candidate of the
  other.\<close>

lemma roundedWorld_cells:
  "cellX roundedWorld 0 = 3" "cellY roundedWorld 0 = 2" "cellZ roundedWorld 0 = 4"
  "cellX roundedWorld (Suc 0) = 5" "cellY roundedWorld (Suc 0) = 2" "cellZ roundedWorld (Suc 0) = 4"
  by (simp_all add: cellX_def cellY_def cellZ_def gridCoordinate_def roundedWorld_def exampleWorld_def)

lemma roundedWorld_cellOf: "cellOf roundedWorld 0 = 1059" "cellOf roundedWorld (Suc 0) = 1061"
  unfolding cellOf_coordinates roundedWorld_cells by (simp_all add: roundedWorld_def)


lemma offset_not_two:
  fixes ox oy oz :: int
  assumes "(ox, oy, oz) \<in> set neighborOffsets"
  shows "ox + oy * 16 + oz * 16 * 16 \<noteq> 2" and "ox + oy * 16 + oz * 16 * 16 \<noteq> - 2"
  using assms unfolding neighborOffsets_set by auto

theorem C7_rounded_pair_missed:
  "length (grid (spatialGrid roundedWorld)) = 4096 \<and>
   cellOf roundedWorld 0 = 1059 \<and> cellOf roundedWorld 1 = 1061 \<and>
   inGrid roundedWorld 0 \<and> inGrid roundedWorld 1 \<and>
   indexExact roundedWorld 0 \<and> indexExact roundedWorld 1 \<and>
   \<bar>x (positions roundedWorld ! 0) - x (positions roundedWorld ! 1)\<bar>
      < cellSize (spatialGrid roundedWorld) \<and>
   y (positions roundedWorld ! 0) = y (positions roundedWorld ! 1) \<and>
   z (positions roundedWorld ! 0) = z (positions roundedWorld ! 1) \<and>
   (\<exists>cands. getPotentialCollisions 0 (updateGrid roundedWorld) = Inr cands \<and> 1 \<notin> set cands) \<and>
   (\<exists>cands. getPotentialCollisions 1 (updateGrid roundedWorld) = Inr cands \<and> 0 \<notin> set cands)"
proof -
  have l: "length (positions roundedWorld) = 2" "gridSize (spatialGrid roundedWorld) = 16"
    "length (grid (spatialGrid roundedWorld)) = 4096"
    by (simp_all add: roundedWorld_def exampleWorld_def)
  have g: "inGrid roundedWorld 0" "inGrid roundedWorld (Suc 0)"
    unfolding inGrid_def roundedWorld_cellOf l by simp_all
  have ix: "indexExact roundedWorld 0" "indexExact roundedWorld (Suc 0)"
    unfolding indexExact_def roundedWorld_cells by (simp_all add: roundedWorld_def)
  have d: "\<bar>x (positions roundedWorld ! 0) - x (positions roundedWorld ! 1)\<bar>
      < cellSize (spatialGrid roundedWorld)"
    "y (positions roundedWorld ! 0) = y (positions roundedWorld ! 1)"
    "z (positions roundedWorld ! 0) = z (positions roundedWorld ! 1)"
    by (simp_all add: roundedWorld_def exampleWorld_def)
  from candidates_updateGrid [of 0 roundedWorld] obtain c0 where
    c0: "getPotentialCollisions 0 (updateGrid roundedWorld) = Inr c0" by (auto simp add: l)
  from candidates_updateGrid [of 1 roundedWorld] obtain c1 where
    c1: "getPotentialCollisions 1 (updateGrid roundedWorld) = Inr c1" by (auto simp add: l)
  have n0: "1 \<notin> set c0"
  proof
    assume "1 \<in> set c0"
    from candidates_offset [OF c0 this] obtain ox oy oz where
      "(ox, oy, oz) \<in> set neighborOffsets" and
      "cellOf roundedWorld 1 = cellOf roundedWorld 0 + ox + oy * 16 + oz * 16 * 16"
      by (auto simp add: l)
    with offset_not_two(1) [of ox oy oz] roundedWorld_cellOf show False by simp
  qed
  have n1: "0 \<notin> set c1"
  proof
    assume "0 \<in> set c1"
    from candidates_offset [OF c1 this] obtain ox oy oz where
      "(ox, oy, oz) \<in> set neighborOffsets" and
      "cellOf roundedWorld 0 = cellOf roundedWorld 1 + ox + oy * 16 + oz * 16 * 16"
      by (auto simp add: l)
    with offset_not_two(2) [of ox oy oz] roundedWorld_cellOf show False by simp
  qed
  from l g ix d c0 c1 n0 n1 roundedWorld_cellOf show ?thesis by simp
qed


end
